theory Spec2Isabelle
  imports Main "HOL-Library.AList" "HOL-Library.Sublist"
begin

section \<open>Data model\<close>

text \<open>
  The update manager of \<^verbatim>\<open>update.py\<close> works on two directory trees and one JSON file:
  the primary folder, the updates directory with its two sub-folders
  \<^verbatim>\<open>_installed_\<close> and \<^verbatim>\<open>_uninstalled_\<close>, and \<^verbatim>\<open>dependencies.json\<close>.

  A Python dictionary keeps its keys in insertion order, and assigning to an existing key
  keeps the key's position: that is \<open>AList.update\<close> on an association list, read with
  \<open>map_of\<close>. A directory is modelled the same way, its listing order being the order of
  the association list.
\<close>

type_synonym 'v dict = "(string \<times> 'v) list"

text \<open>\<^verbatim>\<open>d.get(k, [])\<close>\<close>

definition dict_get :: "'v list dict \<Rightarrow> string \<Rightarrow> 'v list" where
  "dict_get d k = (case map_of d k of None \<Rightarrow> [] | Some v \<Rightarrow> v)"

text \<open>The content of \<^verbatim>\<open>dependencies.json\<close>: two dictionaries of name lists.\<close>

record dependency_data =
  dependencies :: "string list dict"
  dependents :: "string list dict"

text \<open>
  A path is the list of its components, relative to the folder it is used in. A member of a
  zip archive is its name (the components of the name, and whether the name ends in
  \<^verbatim>\<open>/\<close>) and its bytes.
\<close>

type_synonym path = "string list"

datatype zip_entry = ZipEntry (entry_path: path) (ends_with_slash: bool) (entry_bytes: string)

text \<open>
  A file of a bucket either opens as a zip archive or makes \<^verbatim>\<open>zipfile.ZipFile\<close> raise
  \<^verbatim>\<open>BadZipFile\<close>.
\<close>

datatype zip_file = BadZipFile | ZipFile (namelist: "zip_entry list")

text \<open>
  The updates directory: the files directly in it, the files of its two sub-folders, and
  the dependency file (\<open>None\<close> when it is absent or does not parse). Both sub-folders
  exist: \<^verbatim>\<open>main\<close> creates them before any operation.
\<close>

record updates_dir =
  root_files :: "zip_file dict"
  installed_files :: "zip_file dict"
  uninstalled_files :: "zip_file dict"
  dependency_file :: "dependency_data option"

section \<open>Dependency graph store\<close>

definition load_dependencies :: "updates_dir \<Rightarrow> dependency_data" where
  "load_dependencies u =
     (case dependency_file u of
        None \<Rightarrow> \<lparr>dependencies = [], dependents = []\<rparr>
      | Some d \<Rightarrow> d)"

definition save_dependencies :: "updates_dir \<Rightarrow> dependency_data \<Rightarrow> updates_dir" where
  "save_dependencies u d = u\<lparr>dependency_file := Some d\<rparr>"

text \<open>
  One round of the loop of \<^verbatim>\<open>update_dependencies\<close>:
  \<^verbatim>\<open>
    if dep not in dependency_data["dependents"]:
        dependency_data["dependents"][dep] = []
    if update_name not in dependency_data["dependents"][dep]:
        dependency_data["dependents"][dep].append(update_name)
  \<close>
\<close>

definition add_dependent :: "string \<Rightarrow> string \<Rightarrow> string list dict \<Rightarrow> string list dict" where
  "add_dependent update_name dep ds =
     (let ds1 = (if map_of ds dep = None then AList.update dep [] ds else ds);
          cur = dict_get ds1 dep
      in if update_name \<notin> set cur then AList.update dep (cur @ [update_name]) ds1 else ds1)"

definition update_dependencies :: "updates_dir \<Rightarrow> string \<Rightarrow> string list \<Rightarrow> updates_dir" where
  "update_dependencies u update_name deps =
     (let d = load_dependencies u;
          d1 = d\<lparr>dependencies := AList.update update_name deps (dependencies d)\<rparr>;
          d2 = d1\<lparr>dependents := fold (add_dependent update_name) deps (dependents d1)\<rparr>
      in save_dependencies u d2)"

definition get_dependents :: "updates_dir \<Rightarrow> string \<Rightarrow> string list" where
  "get_dependents u update_name = dict_get (dependents (load_dependencies u)) update_name"

definition get_dependencies :: "updates_dir \<Rightarrow> string \<Rightarrow> string list" where
  "get_dependencies u update_name = dict_get (dependencies (load_dependencies u)) update_name"

text \<open>\<^verbatim>\<open>f.endswith(".zip")\<close>\<close>

definition endswith :: "string \<Rightarrow> string \<Rightarrow> bool" where
  "endswith s sfx = (length sfx \<le> length s \<and> drop (length s - length sfx) s = sfx)"

text \<open>
  The listing of \<^verbatim>\<open>_installed_\<close>: the names ending in \<^verbatim>\<open>.zip\<close>, each with the place
  it stands for.
\<close>

datatype bucket = Root | Installed | Uninstalled

type_synonym zip_location = "bucket \<times> string"

definition get_installed_updates :: "updates_dir \<Rightarrow> (string \<times> zip_location) list" where
  "get_installed_updates u =
     map (\<lambda>f. (f, (Installed, f))) (filter (\<lambda>f. endswith f ''.zip'') (map fst (installed_files u)))"

definition get_available_updates :: "updates_dir \<Rightarrow> (string \<times> zip_location) list" where
  "get_available_updates u =
     map (\<lambda>f. (f, (Root, f))) (filter (\<lambda>f. endswith f ''.zip'') (map fst (root_files u)))
     @ map (\<lambda>f. (f, (Uninstalled, f)))
         (filter (\<lambda>f. endswith f ''.zip'') (map fst (uninstalled_files u)))"

text \<open>
  The inner loop of \<^verbatim>\<open>check_unused_dependencies\<close>: is some dependent other than the
  removed update installed?
\<close>

fun still_needed :: "string \<Rightarrow> string list \<Rightarrow> string list \<Rightarrow> bool" where
  "still_needed removed_update installed_updates [] = False"
| "still_needed removed_update installed_updates (dependent # rest) =
     (if dependent \<noteq> removed_update \<and> dependent \<in> set installed_updates then True
      else still_needed removed_update installed_updates rest)"

definition check_unused_dependencies :: "updates_dir \<Rightarrow> string \<Rightarrow> string list" where
  "check_unused_dependencies u removed_update =
     (let dependency_data = load_dependencies u;
          installed_updates = map fst (get_installed_updates u);
          removed_deps = dict_get (dependencies dependency_data) removed_update
      in filter (\<lambda>dep. dep \<in> set installed_updates \<and>
                   \<not> still_needed removed_update installed_updates
                        (dict_get (dependents dependency_data) dep))
           removed_deps)"

section \<open>The primary folder as a file system\<close>

text \<open>
  The primary folder is a finite map from paths (relative to the folder, \<open>[]\<close> being the
  folder itself) to nodes, kept as an association list whose order is the order of
  creation. The operations below are the calls of \<^verbatim>\<open>os\<close> and \<^verbatim>\<open>shutil\<close> that
  \<^verbatim>\<open>update.py\<close> makes; each returns the exception it raises as a value. Only the failures
  that follow from the shape of the tree are modelled (a file where a directory is needed,
  a directory where a file is needed, a missing path); permissions and other failures of
  the environment are not.
\<close>

datatype node = File string | Dir

type_synonym fs = "(path \<times> node) list"

datatype os_error =
  FileExistsError | FileNotFoundError | NotADirectoryError | IsADirectoryError | DirectoryNotEmpty

text \<open>\<^verbatim>\<open>str(e)\<close>\<close>

fun str_os_error :: "os_error \<Rightarrow> string" where
  "str_os_error FileExistsError = ''[Errno 17] File exists''"
| "str_os_error FileNotFoundError = ''[Errno 2] No such file or directory''"
| "str_os_error NotADirectoryError = ''[Errno 20] Not a directory''"
| "str_os_error IsADirectoryError = ''[Errno 21] Is a directory''"
| "str_os_error DirectoryNotEmpty = ''[Errno 39] Directory not empty''"

definition path_exists :: "fs \<Rightarrow> path \<Rightarrow> bool" where
  "path_exists fs p = (map_of fs p \<noteq> None)"

definition isdir :: "fs \<Rightarrow> path \<Rightarrow> bool" where
  "isdir fs p = (map_of fs p = Some Dir)"

definition mkdir :: "fs \<Rightarrow> path \<Rightarrow> os_error + fs" where
  "mkdir fs p =
     (if path_exists fs p then Inl FileExistsError
      else if p = [] then Inr (AList.update p Dir fs)
      else (case map_of fs (butlast p) of
              None \<Rightarrow> Inl FileNotFoundError
            | Some (File b) \<Rightarrow> Inl NotADirectoryError
            | Some Dir \<Rightarrow> Inr (AList.update p Dir fs)))"

text \<open>
  \<^verbatim>\<open>os.makedirs(p, exist_ok=True)\<close>: the parent is made first when it does not exist; a
  failure of the final \<^verbatim>\<open>mkdir\<close> is ignored when the path is a directory already.
\<close>

function makedirs :: "fs \<Rightarrow> path \<Rightarrow> os_error + fs" where
  "makedirs fs p =
     (case (if p \<noteq> [] \<and> \<not> path_exists fs (butlast p) then makedirs fs (butlast p) else Inr fs) of
        Inl e \<Rightarrow> Inl e
      | Inr fs1 \<Rightarrow>
          (case mkdir fs1 p of
             Inl e \<Rightarrow> if isdir fs1 p then Inr fs1 else Inl e
           | Inr fs2 \<Rightarrow> Inr fs2))"
  by pat_completeness auto
termination
  by (relation "measure (\<lambda>(fs, p). length p)") auto

text \<open>Opening \<open>p\<close> for writing and writing \<open>b\<close>.\<close>

definition write_file :: "fs \<Rightarrow> path \<Rightarrow> string \<Rightarrow> os_error + fs" where
  "write_file fs p b =
     (case map_of fs p of
        Some Dir \<Rightarrow> Inl IsADirectoryError
      | _ \<Rightarrow> (case map_of fs (butlast p) of
                None \<Rightarrow> Inl FileNotFoundError
              | Some (File c) \<Rightarrow> Inl NotADirectoryError
              | Some Dir \<Rightarrow> Inr (AList.update p (File b) fs)))"

text \<open>
  \<^verbatim>\<open>shutil.copy2(src, dst)\<close> for a source file of name \<open>src_name\<close> and bytes
  \<open>src_bytes\<close>: when \<open>dst\<close> is a directory the file is written into it.
\<close>

definition copy2 :: "string \<Rightarrow> string \<Rightarrow> fs \<Rightarrow> path \<Rightarrow> os_error + fs" where
  "copy2 src_name src_bytes fs dst =
     write_file fs (if isdir fs dst then dst @ [src_name] else dst) src_bytes"

definition os_remove :: "fs \<Rightarrow> path \<Rightarrow> os_error + fs" where
  "os_remove fs p =
     (case map_of fs p of
        None \<Rightarrow> Inl FileNotFoundError
      | Some Dir \<Rightarrow> Inl IsADirectoryError
      | Some (File b) \<Rightarrow> Inr (AList.delete p fs))"

text \<open>The entries directly under \<open>d\<close>, in listing order.\<close>

definition children :: "fs \<Rightarrow> path \<Rightarrow> (path \<times> node) list" where
  "children fs d = filter (\<lambda>(q, n). q \<noteq> [] \<and> butlast q = d) fs"

definition listdir :: "fs \<Rightarrow> path \<Rightarrow> os_error + string list" where
  "listdir fs d =
     (case map_of fs d of
        None \<Rightarrow> Inl FileNotFoundError
      | Some (File b) \<Rightarrow> Inl NotADirectoryError
      | Some Dir \<Rightarrow> Inr (map (\<lambda>(q, n). last q) (children fs d)))"

definition os_rmdir :: "fs \<Rightarrow> path \<Rightarrow> os_error + fs" where
  "os_rmdir fs d =
     (case map_of fs d of
        None \<Rightarrow> Inl FileNotFoundError
      | Some (File b) \<Rightarrow> Inl NotADirectoryError
      | Some Dir \<Rightarrow> if children fs d = [] then Inr (AList.delete d fs) else Inl DirectoryNotEmpty)"

text \<open>
  \<^verbatim>\<open>os.walk(top)\<close>, top-down: the files of a directory (here with the directory's path,
  the file's name and its bytes), then the walk of each of its sub-directories.
\<close>

function walk :: "fs \<Rightarrow> path \<Rightarrow> (path \<times> string \<times> string) list" where
  "walk fs d =
     concat (map (\<lambda>(q, n). case n of File b \<Rightarrow> [(d, last q, b)] | Dir \<Rightarrow> []) (children fs d))
     @ concat (map (\<lambda>(q, n). case n of File b \<Rightarrow> [] | Dir \<Rightarrow> walk fs q) (children fs d))"
  by pat_completeness auto
termination
proof (relation "measure (\<lambda>(fs, d). Suc (Max (length ` fst ` set fs)) - length d)", goal_cases)
  case 1
  show ?case by simp
next
  case (2 fs d x q n)
  then have mem: "(q, n) \<in> set fs" and q: "q \<noteq> []" "butlast q = d"
    by (auto simp: children_def)
  from mem have "length q \<in> length ` fst ` set fs" by force
  then have "length q \<le> Max (length ` fst ` set fs)" by simp
  moreover from q have "length q = Suc (length d)" by (cases q rule: rev_cases) auto
  ultimately show ?case by simp
qed

declare makedirs.simps [simp del] walk.simps [simp del]

section \<open>Archives\<close>

text \<open>
  \<^verbatim>\<open>ZipFile.extractall\<close> into a fresh temporary directory: for each member, in the order of
  the archive, the upper directories are made when they do not exist, then a member whose
  name ends in \<^verbatim>\<open>/\<close> becomes a directory and any other member is written as a file.
\<close>

definition extract_member :: "fs \<Rightarrow> zip_entry \<Rightarrow> os_error + fs" where
  "extract_member fs e =
     (let p = entry_path e; upperdirs = butlast p
      in case (if p \<noteq> [] \<and> \<not> path_exists fs upperdirs then makedirs fs upperdirs else Inr fs) of
           Inl err \<Rightarrow> Inl err
         | Inr fs1 \<Rightarrow>
             if ends_with_slash e
             then (if isdir fs1 p then Inr fs1 else mkdir fs1 p)
             else write_file fs1 p (entry_bytes e))"

fun extract_members :: "fs \<Rightarrow> zip_entry list \<Rightarrow> os_error + fs" where
  "extract_members fs [] = Inr fs"
| "extract_members fs (e # es) =
     (case extract_member fs e of
        Inl err \<Rightarrow> Inl err
      | Inr fs1 \<Rightarrow> extract_members fs1 es)"

definition extractall :: "zip_entry list \<Rightarrow> os_error + fs" where
  "extractall es = extract_members [([], Dir)] es"

definition bucket_files :: "updates_dir \<Rightarrow> bucket \<Rightarrow> zip_file dict" where
  "bucket_files u b =
     (case b of Root \<Rightarrow> root_files u | Installed \<Rightarrow> installed_files u
              | Uninstalled \<Rightarrow> uninstalled_files u)"

text \<open>The file at a place of the updates directory, if there is one.\<close>

definition zip_at :: "updates_dir \<Rightarrow> zip_location \<Rightarrow> zip_file option" where
  "zip_at u loc = map_of (bucket_files u (fst loc)) (snd loc)"

section \<open>Archive delta engine\<close>

text \<open>
  What the third result list names: the archive, the primary folder, or a path of the
  primary folder. The results are the new primary folder and the three lists.
\<close>

datatype failed_path = ZipPath zip_location | PrimaryFolder | PrimaryFile path

type_synonym failures = "(failed_path \<times> string) list"

type_synonym delta_result = "fs \<times> path list \<times> path list \<times> failures"

text \<open>
  The loop of \<^verbatim>\<open>apply_update_zip\<close> over the walked files. \<^verbatim>\<open>os.makedirs\<close> stands outside
  the inner \<^verbatim>\<open>try\<close>: when it raises, the outer handler ends the loop with a failure entry
  for the archive.
\<close>

fun copy_files :: "zip_location \<Rightarrow> (path \<times> string \<times> string) list \<Rightarrow> delta_result \<Rightarrow> delta_result" where
  "copy_files loc [] r = r"
| "copy_files loc ((rel_path, file, bytes) # rest) (fs, copied_files, overwritten_files, failed_files) =
     (let target_file_path = rel_path @ [file]
      in case makedirs fs rel_path of
           Inl e \<Rightarrow>
             (fs, copied_files, overwritten_files, failed_files @ [(ZipPath loc, str_os_error e)])
         | Inr fs1 \<Rightarrow>
             if path_exists fs1 target_file_path
             then (case copy2 file bytes fs1 target_file_path of
                     Inr fs2 \<Rightarrow>
                       copy_files loc rest
                         (fs2, copied_files, overwritten_files @ [target_file_path], failed_files)
                   | Inl e \<Rightarrow>
                       copy_files loc rest
                         (fs1, copied_files, overwritten_files,
                          failed_files @ [(PrimaryFile target_file_path, str_os_error e)]))
             else (case copy2 file bytes fs1 target_file_path of
                     Inr fs2 \<Rightarrow>
                       copy_files loc rest
                         (fs2, copied_files @ [target_file_path], overwritten_files, failed_files)
                   | Inl e \<Rightarrow>
                       copy_files loc rest
                         (fs1, copied_files, overwritten_files,
                          failed_files @ [(PrimaryFile target_file_path, str_os_error e)])))"

definition apply_update_zip :: "updates_dir \<Rightarrow> zip_location \<Rightarrow> fs \<Rightarrow> delta_result" where
  "apply_update_zip u update_zip_path primary_folder =
     (case zip_at u update_zip_path of
        None \<Rightarrow> (primary_folder, [], [], [(ZipPath update_zip_path, ''File not found'')])
      | Some z \<Rightarrow>
          if \<not> path_exists primary_folder []
          then (primary_folder, [], [], [(PrimaryFolder, ''Directory not found'')])
          else (case z of
                  BadZipFile \<Rightarrow>
                    (primary_folder, [], [], [(ZipPath update_zip_path, ''Invalid zip file'')])
                | ZipFile es \<Rightarrow>
                    (case extractall es of
                       Inl e \<Rightarrow>
                         (primary_folder, [], [], [(ZipPath update_zip_path, str_os_error e)])
                     | Inr temp_dir \<Rightarrow>
                         copy_files update_zip_path (walk temp_dir []) (primary_folder, [], [], []))))"

text \<open>
  The loop that follows a removal in \<^verbatim>\<open>analyze_update_zip\<close>:
  \<^verbatim>\<open>
    while dir_path != primary_folder and os.path.exists(dir_path):
        if not os.listdir(dir_path):
            os.rmdir(dir_path)
            dir_path = os.path.dirname(dir_path)
        else:
            break
  \<close>
  The result is the folder as the loop leaves it and the exception it raised, if any.
\<close>

function remove_empty_dirs :: "fs \<Rightarrow> path \<Rightarrow> fs \<times> os_error option" where
  "remove_empty_dirs fs dir_path =
     (if dir_path \<noteq> [] \<and> path_exists fs dir_path
      then (case listdir fs dir_path of
              Inl e \<Rightarrow> (fs, Some e)
            | Inr names \<Rightarrow>
                if names = []
                then (case os_rmdir fs dir_path of
                        Inl e \<Rightarrow> (fs, Some e)
                      | Inr fs1 \<Rightarrow> remove_empty_dirs fs1 (butlast dir_path))
                else (fs, None))
      else (fs, None))"
  by pat_completeness auto
termination
  by (relation "measure (\<lambda>(fs, p). length p)") auto

declare remove_empty_dirs.simps [simp del]

fun remove_files :: "zip_entry list \<Rightarrow> delta_result \<Rightarrow> delta_result" where
  "remove_files [] r = r"
| "remove_files (e # rest) (fs, removed_files, not_found_files, failed_to_remove) =
     (if ends_with_slash e
      then remove_files rest (fs, removed_files, not_found_files, failed_to_remove)
      else
        (let primary_file_path = entry_path e
         in if path_exists fs primary_file_path
            then (case os_remove fs primary_file_path of
                    Inl err \<Rightarrow>
                      remove_files rest
                        (fs, removed_files, not_found_files,
                         failed_to_remove @ [(PrimaryFile primary_file_path, str_os_error err)])
                  | Inr fs1 \<Rightarrow>
                      (case remove_empty_dirs fs1 (butlast primary_file_path) of
                         (fs2, None) \<Rightarrow>
                           remove_files rest
                             (fs2, removed_files @ [primary_file_path], not_found_files,
                              failed_to_remove)
                       | (fs2, Some err) \<Rightarrow>
                           remove_files rest
                             (fs2, removed_files @ [primary_file_path], not_found_files,
                              failed_to_remove
                              @ [(PrimaryFile primary_file_path, str_os_error err)])))
            else remove_files rest
                   (fs, removed_files, not_found_files @ [primary_file_path], failed_to_remove)))"

definition analyze_update_zip :: "updates_dir \<Rightarrow> zip_location \<Rightarrow> fs \<Rightarrow> delta_result" where
  "analyze_update_zip u update_zip_path primary_folder =
     (case zip_at u update_zip_path of
        None \<Rightarrow> (primary_folder, [], [], [(ZipPath update_zip_path, ''File not found'')])
      | Some z \<Rightarrow>
          if \<not> path_exists primary_folder []
          then (primary_folder, [], [], [(PrimaryFolder, ''Directory not found'')])
          else (case z of
                  BadZipFile \<Rightarrow>
                    (primary_folder, [], [], [(ZipPath update_zip_path, ''Invalid zip file'')])
                | ZipFile es \<Rightarrow> remove_files es (primary_folder, [], [], [])))"

section \<open>Relocation of archives\<close>

definition set_bucket_files :: "updates_dir \<Rightarrow> bucket \<Rightarrow> zip_file dict \<Rightarrow> updates_dir" where
  "set_bucket_files u b files =
     (case b of Root \<Rightarrow> u\<lparr>root_files := files\<rparr>
              | Installed \<Rightarrow> u\<lparr>installed_files := files\<rparr>
              | Uninstalled \<Rightarrow> u\<lparr>uninstalled_files := files\<rparr>)"

text \<open>
  \<^verbatim>\<open>shutil.move(src, dst)\<close> between two places of the updates directory: a file already
  at \<open>dst\<close> is replaced.
\<close>

definition move_zip :: "updates_dir \<Rightarrow> zip_location \<Rightarrow> zip_location \<Rightarrow> os_error + updates_dir" where
  "move_zip u src dst =
     (case zip_at u src of
        None \<Rightarrow> Inl FileNotFoundError
      | Some z \<Rightarrow>
          if src = dst then Inr u
          else (let u1 = set_bucket_files u (fst src) (AList.delete (snd src) (bucket_files u (fst src)))
                in Inr (set_bucket_files u1 (fst dst) (AList.update (snd dst) z (bucket_files u1 (fst dst))))))"

text \<open>\<^verbatim>\<open>str(i)\<close> for a natural number.\<close>

fun str_nat :: "nat \<Rightarrow> string" where
  "str_nat n =
     (if n < 10 then [char_of (48 + n)]
      else str_nat (n div 10) @ [char_of (48 + n mod 10)])"

declare str_nat.simps [simp del]

text \<open>
  \<^verbatim>\<open>os.path.splitext\<close> on a file name: the extension starts at the last dot, unless only
  dots stand before it.
\<close>

definition splitext :: "string \<Rightarrow> string \<times> string" where
  "splitext p =
     (if CHR ''.'' \<in> set p
      then (let dotIndex = length p - 1 - length (takeWhile (\<lambda>c. c \<noteq> CHR ''.'') (rev p))
            in if \<exists>c \<in> set (take dotIndex p). c \<noteq> CHR ''.''
               then (take dotIndex p, drop dotIndex p)
               else (p, []))
      else (p, []))"

definition suffixed_name :: "string \<Rightarrow> string \<Rightarrow> nat \<Rightarrow> string" where
  "suffixed_name base ext i = base @ ''_'' @ str_nat i @ ext"

text \<open>
  \<^verbatim>\<open>
    i = 1
    while os.path.exists(os.path.join(installed_dir, f"{base}_{i}{ext}")):
        i += 1
  \<close>
\<close>

function first_free_index :: "updates_dir \<Rightarrow> string \<Rightarrow> string \<Rightarrow> nat \<Rightarrow> nat" where
  "first_free_index u base ext i =
     (if zip_at u (Installed, suffixed_name base ext i) \<noteq> None
      then first_free_index u base ext (i + 1)
      else i)"
  by pat_completeness auto

definition install_target_path :: "updates_dir \<Rightarrow> string \<Rightarrow> zip_location" where
  "install_target_path u zip_name =
     (if zip_at u (Installed, zip_name) \<noteq> None
      then (let (base, ext) = splitext zip_name;
                i = first_free_index u base ext 1
            in (Installed, suffixed_name base ext i))
      else (Installed, zip_name))"

section \<open>Lifecycle orchestrator\<close>

text \<open>
  The state of a run: the primary folder, the updates directory, the lines still to be
  read from standard input, and the prompts shown by \<^verbatim>\<open>input\<close> so far, each with the
  line read for it. What \<^verbatim>\<open>print\<close> writes is not modelled.
\<close>

record world =
  primary :: fs
  updates :: updates_dir
  stdin :: "string list"
  transcript :: "(string \<times> string) list"

text \<open>An exception that no handler of \<^verbatim>\<open>update.py\<close> catches ends the run in the state reached.\<close>

datatype exn = EOFError | IndexError

datatype outcome = Returned world | Raised exn world

fun world_of :: "outcome \<Rightarrow> world" where
  "world_of (Returned w) = w"
| "world_of (Raised e w) = w"

text \<open>\<^verbatim>\<open>input(prompt)\<close>: \<open>None\<close> is \<^verbatim>\<open>EOFError\<close>.\<close>

definition input :: "string \<Rightarrow> world \<Rightarrow> (string \<times> world) option" where
  "input prompt w =
     (case stdin w of
        [] \<Rightarrow> None
      | line # rest \<Rightarrow>
          Some (line, w\<lparr>stdin := rest, transcript := transcript w @ [(prompt, line)]\<rparr>))"

text \<open>\<^verbatim>\<open>.strip().lower()\<close> on ASCII.\<close>

definition isspace :: "char \<Rightarrow> bool" where
  "isspace c = (c \<in> set [CHR '' '', CHR 0x09, CHR 0x0A, CHR 0x0B, CHR 0x0C, CHR 0x0D,
                          CHR 0x1C, CHR 0x1D, CHR 0x1E, CHR 0x1F])"

definition lower_char :: "char \<Rightarrow> char" where
  "lower_char c =
     (let n = (of_char c :: nat) in if 65 \<le> n \<and> n \<le> 90 then char_of (n + 32) else c)"

definition strip_lower :: "string \<Rightarrow> string" where
  "strip_lower s = map lower_char (rev (dropWhile isspace (rev (dropWhile isspace s))))"

definition details_prompt :: string where
  "details_prompt = ''Show detailed results? (y/n): ''"

definition dependents_prompt :: string where
  "dependents_prompt = ''Do you still want to remove this update? (y/n): ''"

definition unused_prompt :: string where
  "unused_prompt = ''Do you want to remove these unused dependencies? (y/n): ''"

definition remove_all_prompt :: string where
  "remove_all_prompt = ''Are you sure you want to remove ALL installed updates? (y/n): ''"

text \<open>The prompt that ends a round when any of the three result lists is not empty.\<close>

definition show_details :: "bool \<Rightarrow> world \<Rightarrow> outcome" where
  "show_details any_result w =
     (if any_result
      then (case input details_prompt w of
              None \<Rightarrow> Raised EOFError w
            | Some (line, w1) \<Rightarrow> Returned w1)
      else Returned w)"

text \<open>
  One round of the loop of \<^verbatim>\<open>install_selected_updates\<close>, for the entry
  \<open>(zip_name, source_path)\<close> of the listing. The third argument is what
  \<^verbatim>\<open>select_dependencies\<close> returned for it: \<open>None\<close> when the user cancelled.
\<close>

definition install_update :: "world \<Rightarrow> string \<times> zip_location \<Rightarrow> string list option \<Rightarrow> outcome" where
  "install_update w item selected =
     (case item of (zip_name, source_path) \<Rightarrow>
        (case selected of
           None \<Rightarrow> Returned w
         | Some deps \<Rightarrow>
             (let u1 = update_dependencies (updates w) zip_name deps
              in case apply_update_zip u1 source_path (primary w) of
                   (fs1, copied, overwritten, failed) \<Rightarrow>
                     (let u2 = (if length copied > 0 \<or> length overwritten > 0
                                then (case move_zip u1 source_path (install_target_path u1 zip_name) of
                                        Inl e \<Rightarrow> u1
                                      | Inr u' \<Rightarrow> u')
                                else u1)
                      in show_details (copied \<noteq> [] \<or> overwritten \<noteq> [] \<or> failed \<noteq> [])
                           (w\<lparr>primary := fs1, updates := u2\<rparr>)))))"

text \<open>
  The removal of the unused dependencies, inside the \<^verbatim>\<open>try\<close> of
  \<^verbatim>\<open>remove_selected_updates\<close>: an exception of \<^verbatim>\<open>shutil.move\<close> ends the loop.
\<close>

fun remove_unused_deps :: "world \<Rightarrow> string list \<Rightarrow> world" where
  "remove_unused_deps w [] = w"
| "remove_unused_deps w (dep # rest) =
     (let dep_path = (Installed, dep)
      in if zip_at (updates w) dep_path \<noteq> None
         then (case analyze_update_zip (updates w) dep_path (primary w) of
                 (fs1, dep_removed, dep_not_found, dep_failed) \<Rightarrow>
                   if length dep_removed > 0
                   then (case move_zip (updates w) dep_path (Uninstalled, dep) of
                           Inl e \<Rightarrow> w\<lparr>primary := fs1\<rparr>
                         | Inr u' \<Rightarrow> remove_unused_deps (w\<lparr>primary := fs1, updates := u'\<rparr>) rest)
                   else remove_unused_deps (w\<lparr>primary := fs1\<rparr>) rest)
         else remove_unused_deps w rest)"

text \<open>
  The \<^verbatim>\<open>try\<close> block of \<^verbatim>\<open>remove_selected_updates\<close>, entered when a file was removed: the
  archive is moved, then the unused dependencies are looked for. Its handler catches every
  \<^verbatim>\<open>Exception\<close>, also the \<^verbatim>\<open>EOFError\<close> of its prompt.
\<close>

definition relocate_removed :: "world \<Rightarrow> string \<times> zip_location \<Rightarrow> world" where
  "relocate_removed w item =
     (case item of (zip_name, zip_path) \<Rightarrow>
        (case move_zip (updates w) zip_path (Uninstalled, zip_name) of
           Inl e \<Rightarrow> w
         | Inr u1 \<Rightarrow>
             (let w1 = w\<lparr>updates := u1\<rparr>;
                  unused_deps = check_unused_dependencies u1 zip_name
              in if unused_deps \<noteq> []
                 then (case input unused_prompt w1 of
                         None \<Rightarrow> w1
                       | Some (line, w2) \<Rightarrow>
                           if strip_lower line = ''y'' then remove_unused_deps w2 unused_deps
                           else w2)
                 else w1)))"

text \<open>A round of the loop of \<^verbatim>\<open>remove_selected_updates\<close>, after the dependents warning.\<close>

definition remove_confirmed :: "world \<Rightarrow> string \<times> zip_location \<Rightarrow> outcome" where
  "remove_confirmed w item =
     (case item of (zip_name, zip_path) \<Rightarrow>
        (case analyze_update_zip (updates w) zip_path (primary w) of
           (fs1, removed, not_found, failed) \<Rightarrow>
             (let w1 = w\<lparr>primary := fs1\<rparr>;
                  w2 = (if length removed > 0 then relocate_removed w1 item else w1)
              in show_details (removed \<noteq> [] \<or> not_found \<noteq> [] \<or> failed \<noteq> []) w2)))"

text \<open>
  A whole round: when installed updates depend on this one, the user is asked and any
  answer but \<^verbatim>\<open>y\<close> skips the update.
\<close>

definition remove_update :: "world \<Rightarrow> string \<times> zip_location \<Rightarrow> outcome" where
  "remove_update w item =
     (case item of (zip_name, zip_path) \<Rightarrow>
        (let dependents = get_dependents (updates w) zip_name;
             installed_updates = map fst (get_installed_updates (updates w));
             actual_dependents = filter (\<lambda>dep. dep \<in> set installed_updates) dependents
         in if actual_dependents \<noteq> []
            then (case input dependents_prompt w of
                    None \<Rightarrow> Raised EOFError w
                  | Some (line, w1) \<Rightarrow>
                      if strip_lower line \<noteq> ''y'' then Returned w1 else remove_confirmed w1 item)
            else remove_confirmed w item))"

text \<open>\<^verbatim>\<open>zip_files[idx - 1]\<close>: a negative index counts from the end, any other index out of range raises.\<close>

definition item_at :: "'a list \<Rightarrow> nat \<Rightarrow> 'a option" where
  "item_at xs idx =
     (let i = int idx - 1; n = int (length xs); j = (if i < 0 then n + i else i)
      in if 0 \<le> j \<and> j < n then Some (xs ! nat j) else None)"

fun remove_selected_updates ::
  "world \<Rightarrow> nat list \<Rightarrow> (string \<times> zip_location) list \<Rightarrow> outcome" where
  "remove_selected_updates w [] zip_files = Returned w"
| "remove_selected_updates w (idx # rest) zip_files =
     (case item_at zip_files idx of
        None \<Rightarrow> Raised IndexError w
      | Some item \<Rightarrow>
          (case remove_update w item of
             Raised e w1 \<Rightarrow> Raised e w1
           | Returned w1 \<Rightarrow> remove_selected_updates w1 rest zip_files))"

text \<open>A round of the loop of \<^verbatim>\<open>remove_all_updates\<close>.\<close>

definition remove_all_item :: "string \<times> zip_location \<Rightarrow> world \<Rightarrow> world" where
  "remove_all_item item w =
     (case item of (zip_name, zip_path) \<Rightarrow>
        (case analyze_update_zip (updates w) zip_path (primary w) of
           (fs1, removed, not_found, failed) \<Rightarrow>
             if length removed > 0
             then (case move_zip (updates w) zip_path (Uninstalled, zip_name) of
                     Inl e \<Rightarrow> w\<lparr>primary := fs1\<rparr>
                   | Inr u' \<Rightarrow> w\<lparr>primary := fs1, updates := u'\<rparr>)
             else w\<lparr>primary := fs1\<rparr>))"

definition remove_all_updates :: "world \<Rightarrow> outcome" where
  "remove_all_updates w =
     (let zip_files = get_installed_updates (updates w)
      in if zip_files = [] then Returned w
         else (case input remove_all_prompt w of
                 None \<Rightarrow> Raised EOFError w
               | Some (confirmation, w1) \<Rightarrow>
                   if strip_lower confirmation \<noteq> ''y'' then Returned w1
                   else Returned (fold remove_all_item zip_files w1)))"

text \<open>
  The bulk removal as the specification words it, for comparison with
  \<open>remove_all_updates\<close>: one confirmation, then the per-item removal (with its dependents
  warning and its search for unused dependencies) for every installed update in listing
  order.
\<close>

definition remove_all_as_specified :: "world \<Rightarrow> outcome" where
  "remove_all_as_specified w =
     (let zip_files = get_installed_updates (updates w)
      in if zip_files = [] then Returned w
         else (case input remove_all_prompt w of
                 None \<Rightarrow> Raised EOFError w
               | Some (confirmation, w1) \<Rightarrow>
                   if strip_lower confirmation \<noteq> ''y'' then Returned w1
                   else remove_selected_updates w1 [1 ..< Suc (length zip_files)] zip_files))"

section \<open>Rendering of the dependency graph\<close>

text \<open>The box-drawing prefixes of the tree, as their UTF-8 bytes.\<close>

definition branch_last :: string where
  "branch_last = [CHR 0xE2, CHR 0x94, CHR 0x94, CHR 0xE2, CHR 0x94, CHR 0x80,
                  CHR 0xE2, CHR 0x94, CHR 0x80, CHR '' '']"

definition branch_mid :: string where
  "branch_mid = [CHR 0xE2, CHR 0x94, CHR 0x9C, CHR 0xE2, CHR 0x94, CHR 0x80,
                 CHR 0xE2, CHR 0x94, CHR 0x80, CHR '' '']"

definition indent_mid :: string where
  "indent_mid = [CHR 0xE2, CHR 0x94, CHR 0x82, CHR '' '', CHR '' '', CHR '' '']"

text \<open>
  \<^verbatim>\<open>print_dependencies\<close>, as the list of the lines it prints. The function below is the
  loop from position \<open>i\<close> of a list of length \<open>n\<close> on; the recursion of the source is the
  call on \<open>sub_deps\<close>. Nothing in the definition bounds the recursion: a call that does
  not return has the value \<open>None\<close>.
\<close>

partial_function (option) print_dependencies_from ::
  "dependency_data \<Rightarrow> string list \<Rightarrow> string \<Rightarrow> string list \<Rightarrow> nat \<Rightarrow> nat \<Rightarrow> string list
     \<Rightarrow> string list option" where
  "print_dependencies_from dependency_data installed_updates indent visited n i deps =
     (case deps of
        [] \<Rightarrow> Some []
      | dep # rest \<Rightarrow>
          (let is_last = (i + 1 = n);
               prefix = (if is_last then branch_last else branch_mid);
               status = (if dep \<in> set installed_updates then ''[INSTALLED]'' else ''[MISSING]'')
           in if dep \<in> set visited
              then Option.bind
                     (print_dependencies_from dependency_data installed_updates indent visited n
                        (i + 1) rest)
                     (\<lambda>out. Some ((indent @ prefix @ dep @ '' '' @ status
                                     @ '' (circular dependency)'') # out))
              else
                (let sub_deps = dict_get (dependencies dependency_data) dep
                 in Option.bind
                      (if sub_deps \<noteq> []
                       then print_dependencies_from dependency_data installed_updates
                              (indent @ (if is_last then ''    '' else indent_mid))
                              (visited @ [dep]) (length sub_deps) 0 sub_deps
                       else Some [])
                      (\<lambda>sub. Option.bind
                         (print_dependencies_from dependency_data installed_updates indent visited
                            n (i + 1) rest)
                         (\<lambda>out. Some ((indent @ prefix @ dep @ '' '' @ status) # sub @ out))))))"

definition print_dependencies ::
  "string list \<Rightarrow> dependency_data \<Rightarrow> string list \<Rightarrow> string \<Rightarrow> string list \<Rightarrow> string list option" where
  "print_dependencies deps dependency_data installed_updates indent visited =
     print_dependencies_from dependency_data installed_updates indent visited (length deps) 0 deps"

section \<open>Notions used in the statements\<close>

definition is_file :: "fs \<Rightarrow> path \<Rightarrow> bool" where
  "is_file fs p = (\<exists>b. map_of fs p = Some (File b))"



text \<open>Reading a decimal numeral back.\<close>

definition nat_of_digits :: "string \<Rightarrow> nat" where
  "nat_of_digits s = foldl (\<lambda>a c. 10 * a + (of_char c - 48)) 0 s"

section \<open>Concrete states used by the examples\<close>

definition empty_updates_dir :: updates_dir where
  "empty_updates_dir =
     \<lparr>root_files = [], installed_files = [], uninstalled_files = [], dependency_file = None\<rparr>"

definition stale_example :: updates_dir where
  "stale_example =
     update_dependencies
       (update_dependencies
          (update_dependencies
             \<lparr>root_files = [],
              installed_files = [(''A.zip'', ZipFile []), (''B.zip'', ZipFile [])],
              uninstalled_files = [(''X.zip'', ZipFile [])],
              dependency_file = None\<rparr>
             ''B.zip'' [''A.zip''])
          ''X.zip'' [''A.zip''])
       ''B.zip'' []"


definition cycle_example :: dependency_data where
  "cycle_example =
     \<lparr>dependencies = [(''A.zip'', [''B.zip'']), (''B.zip'', [''A.zip''])],
      dependents = [(''B.zip'', [''A.zip'']), (''A.zip'', [''B.zip''])]\<rparr>"

definition warning_world :: world where
  "warning_world =
     \<lparr>primary = [([], Dir), ([''a.txt''], File ''a''), ([''b.txt''], File ''b'')],
      updates =
        \<lparr>root_files = [],
         installed_files = [(''A.zip'', ZipFile [ZipEntry [''a.txt''] False ''a'']),
                            (''B.zip'', ZipFile [ZipEntry [''b.txt''] False ''b''])],
         uninstalled_files = [],
         dependency_file = Some \<lparr>dependencies = [(''A.zip'', []), (''B.zip'', [''A.zip''])],
                                  dependents = [(''A.zip'', [''B.zip''])]\<rparr>\<rparr>,
      stdin = [''y'', ''n'', ''n'', ''n''],
      transcript = []\<rparr>"

definition orphan_world :: world where
  "orphan_world = warning_world\<lparr>stdin := [''n'', ''n'']\<rparr>"

definition collision_world :: world where
  "collision_world =
     \<lparr>primary = [([], Dir)],
      updates =
        \<lparr>root_files = [(''pkg.zip'', ZipFile [ZipEntry [''f.txt''] False ''new'']),
                       (''empty.zip'', ZipFile [])],
         installed_files = [(''pkg.zip'', ZipFile [ZipEntry [''g.txt''] False ''old'']),
                            (''pkg_1.zip'', ZipFile [])],
         uninstalled_files = [],
         dependency_file = None\<rparr>,
      stdin = [''n''],
      transcript = []\<rparr>"

section \<open>The dependency graph store: what one call of \<open>update_dependencies\<close> does\<close>

lemma dict_get_update:
  "dict_get (AList.update k v d) k' = (if k' = k then v else dict_get d k')"
  by (simp add: dict_get_def update_conv')

lemma dict_get_add_dependent:
  "dict_get (add_dependent n dep ds) d =
     (if d = dep \<and> n \<notin> set (dict_get ds dep) then dict_get ds dep @ [n] else dict_get ds d)"
  by (auto simp: add_dependent_def Let_def dict_get_update) (auto simp: dict_get_def)

lemma dict_get_fold_add_dependent:
  "dict_get (fold (add_dependent n) deps ds) d =
     (if d \<in> set deps \<and> n \<notin> set (dict_get ds d) then dict_get ds d @ [n] else dict_get ds d)"
  by (induction deps arbitrary: ds) (auto simp: dict_get_add_dependent)

lemma get_dependents_update_dependencies:
  "get_dependents (update_dependencies u n deps) d =
     (if d \<in> set deps \<and> n \<notin> set (get_dependents u d) then get_dependents u d @ [n]
      else get_dependents u d)"
  by (simp add: get_dependents_def update_dependencies_def Let_def load_dependencies_def
      save_dependencies_def dict_get_fold_add_dependent)

lemma get_dependencies_update_dependencies:
  "get_dependencies (update_dependencies u n deps) b =
     (if b = n then deps else get_dependencies u b)"
  by (simp add: get_dependencies_def update_dependencies_def Let_def load_dependencies_def
      save_dependencies_def dict_get_update)

lemma still_needed_iff:
  "still_needed x inst ds \<longleftrightarrow> (\<exists>b \<in> set ds. b \<noteq> x \<and> b \<in> set inst)"
  by (induction ds) auto

lemma count_update_dependencies:
  assumes "d \<in> set deps"
  shows "count_list (get_dependents (update_dependencies u n deps) d) n =
           max 1 (count_list (get_dependents u d) n)"
proof (cases "n \<in> set (get_dependents u d)")
  case True
  then have "count_list (get_dependents u d) n \<noteq> 0"
    by (simp add: count_list_0_iff)
  with True show ?thesis
    by (simp add: get_dependents_update_dependencies)
next
  case False
  with assms show ?thesis
    by (simp add: get_dependents_update_dependencies count_list_0_iff)
qed

lemma count_repeated_update_dependencies:
  assumes "d \<in> set deps"
  shows "count_list (get_dependents (((\<lambda>v. update_dependencies v n deps) ^^ Suc k) u) d) n =
           max 1 (count_list (get_dependents u d) n)"
proof (induction k)
  case 0
  from assms show ?case by (simp add: count_update_dependencies)
next
  case (Suc k)
  have "count_list (get_dependents (((\<lambda>v. update_dependencies v n deps) ^^ Suc (Suc k)) u) d) n =
          max 1 (count_list (get_dependents (((\<lambda>v. update_dependencies v n deps) ^^ Suc k) u) d) n)"
    using assms by (simp add: count_update_dependencies)
  with Suc show ?case by simp
qed

text \<open>
  Records made from the empty graph never hold a name twice in a list of dependents, and
  every recorded dependency has its reverse entry.
\<close>

inductive recorded :: "updates_dir \<Rightarrow> bool" where
  recorded_empty: "dependency_file u = None \<Longrightarrow> recorded u"
| recorded_update: "recorded u \<Longrightarrow> recorded (update_dependencies u n deps)"

lemma recorded_distinct_dependents: "recorded u \<Longrightarrow> distinct (get_dependents u d)"
proof (induction rule: recorded.induct)
  case (recorded_empty u)
  then show ?case
    by (simp add: get_dependents_def load_dependencies_def dict_get_def)
next
  case (recorded_update u n deps)
  then show ?case
    by (simp add: get_dependents_update_dependencies)
qed

lemma recorded_forward_consistent:
  "recorded u \<Longrightarrow> a \<in> set (get_dependencies u b) \<Longrightarrow> b \<in> set (get_dependents u a)"
proof (induction rule: recorded.induct)
  case (recorded_empty u)
  then show ?case
    by (simp add: get_dependencies_def load_dependencies_def dict_get_def)
next
  case (recorded_update u n deps)
  then show ?case
    by (auto simp: get_dependents_update_dependencies get_dependencies_update_dependencies
        split: if_splits)
qed

lemma distinct_count_list_le: "distinct xs \<Longrightarrow> count_list xs n \<le> 1"
  by (induction xs) (auto simp: count_list_0_iff)

section \<open>Claims about the dependency graph store\<close>

text \<open>
  Claim C1 (mutual consistency of the two indexes after any sequence of records). The
  code keeps the forward direction (\<open>recorded_forward_consistent\<close>) but not the reverse
  one: recording \<^verbatim>\<open>B\<close> with dependency \<^verbatim>\<open>A\<close> and then recording \<^verbatim>\<open>B\<close> again with no
  dependency leaves \<^verbatim>\<open>B\<close> among the dependents of \<^verbatim>\<open>A\<close>, while \<^verbatim>\<open>A\<close> is no longer a
  dependency of \<^verbatim>\<open>B\<close>.
\<close>

theorem update_dependencies_stale_dependent:
  "''B.zip'' \<in> set (get_dependents
      (update_dependencies (update_dependencies empty_updates_dir ''B.zip'' [''A.zip'']) ''B.zip'' [])
      ''A.zip'') \<and>
   ''A.zip'' \<notin> set (get_dependencies
      (update_dependencies (update_dependencies empty_updates_dir ''B.zip'' [''A.zip'']) ''B.zip'' [])
      ''B.zip'')"
  by (simp add: get_dependents_update_dependencies get_dependencies_update_dependencies)

text \<open>
  Claim C2 (unused dependencies after a removal). \<open>check_unused_dependencies\<close> decides
  whether a dependency is still needed from the reverse index, and \<open>update_dependencies\<close>
  leaves stale entries in that index (the defect of claim C1). In \<open>stale_example\<close>, a
  state that three calls of \<open>update_dependencies\<close> reach, \<^verbatim>\<open>X.zip\<close> is removed, its
  dependency \<^verbatim>\<open>A.zip\<close> is installed, and no installed update has \<^verbatim>\<open>A.zip\<close> in its
  dependency list: the claim says that \<^verbatim>\<open>A.zip\<close> is returned, and the code returns
  nothing, because \<^verbatim>\<open>B.zip\<close> is still among the dependents of \<^verbatim>\<open>A.zip\<close>.
\<close>

theorem check_unused_dependencies_stale_index:
  "check_unused_dependencies stale_example ''X.zip'' = [] \<and>
   get_dependencies stale_example ''X.zip'' = [''A.zip''] \<and>
   map fst (get_installed_updates stale_example) = [''A.zip'', ''B.zip''] \<and>
   get_dependencies stale_example ''A.zip'' = [] \<and>
   get_dependencies stale_example ''B.zip'' = [] \<and>
   get_dependents stale_example ''A.zip'' = [''B.zip'', ''X.zip'']"
  by code_simp

text \<open>
  Where the two indexes agree, the function does what the claim says:
  \<open>check_unused_dependencies\<close> returns \<open>d\<close> if and only if \<open>d\<close> is a dependency of the
  removed update, \<open>d\<close> is installed, and no installed update other than the removed one
  has \<open>d\<close> in its dependency list. Only the direct dependencies of the removed update are
  looked at.
\<close>

lemma check_unused_dependencies_correct:
  assumes "\<forall>a b. b \<in> set (get_dependents u a) \<longleftrightarrow> a \<in> set (get_dependencies u b)"
  shows "d \<in> set (check_unused_dependencies u x) \<longleftrightarrow>
           d \<in> set (get_dependencies u x) \<and>
           d \<in> set (map fst (get_installed_updates u)) \<and>
           \<not> (\<exists>b. b \<noteq> x \<and> b \<in> set (map fst (get_installed_updates u)) \<and>
                   d \<in> set (get_dependencies u b))"
  using assms
  by (auto simp: check_unused_dependencies_def Let_def still_needed_iff get_dependents_def
      get_dependencies_def)

text \<open>
  Claim C4 (idempotent reverse index). In every graph state that the store writes (built
  from the empty graph by calls of \<open>update_dependencies\<close>), and more generally in every
  state whose list of dependents of \<open>d\<close> holds no name twice, after one or more calls of
  \<open>update_dependencies\<close> with the same name and the same list, the name stands exactly
  once among the dependents of every \<open>d\<close> of the list, whatever the number of calls and
  of repetitions of \<open>d\<close> in the list.
\<close>

theorem update_dependencies_idempotent:
  assumes "recorded u \<or> distinct (get_dependents u d)" and "d \<in> set deps"
  shows "count_list (get_dependents (((\<lambda>v. update_dependencies v n deps) ^^ Suc k) u) d) n = 1"
proof -
  from assms(1) have "distinct (get_dependents u d)"
    by (auto intro: recorded_distinct_dependents)
  then have "count_list (get_dependents u d) n \<le> 1"
    by (rule distinct_count_list_le)
  with count_repeated_update_dependencies [OF assms(2), where n = n and k = k and u = u]
  show ?thesis by simp
qed

theorem update_dependencies_idempotent_witness:
  "recorded (update_dependencies empty_updates_dir ''C.zip'' [''A.zip'']) \<and>
   ''A.zip'' \<in> set [''A.zip'', ''A.zip''] \<and>
   count_list (get_dependents
       (((\<lambda>v. update_dependencies v ''B.zip'' [''A.zip'', ''A.zip'']) ^^ Suc 2)
          (update_dependencies empty_updates_dir ''C.zip'' [''A.zip'']))
       ''A.zip'') ''B.zip'' = 1"
proof -
  have r: "recorded (update_dependencies empty_updates_dir ''C.zip'' [''A.zip''])"
    by (intro recorded_update recorded_empty) (simp add: empty_updates_dir_def)
  have m: "''A.zip'' \<in> set [''A.zip'', ''A.zip'']" by simp
  from update_dependencies_idempotent [OF disjI1 [OF r] m, where k = 2] r m
  show ?thesis by blast
qed

text \<open>
  Claim C10: a call of \<open>update_dependencies\<close> removes nothing from the reverse index. A
  name among the dependents of \<open>d\<close> before the call is among them after it, whatever is
  recorded, also when an update is recorded again with fewer dependencies.
\<close>

theorem update_dependencies_keeps_dependents:
  "n \<in> set (get_dependents u d) \<Longrightarrow>
   n \<in> set (get_dependents (update_dependencies u update_name deps) d)"
  by (simp add: get_dependents_update_dependencies)

theorem update_dependencies_keeps_dependents_witness:
  "''B.zip'' \<in> set (get_dependents (update_dependencies empty_updates_dir ''B.zip'' [''A.zip''])
                      ''A.zip'') \<and>
   ''B.zip'' \<in> set (get_dependents
       (update_dependencies (update_dependencies empty_updates_dir ''B.zip'' [''A.zip''])
          ''B.zip'' [])
       ''A.zip'')"
proof -
  have h: "''B.zip'' \<in> set (get_dependents
             (update_dependencies empty_updates_dir ''B.zip'' [''A.zip'']) ''A.zip'')"
    by code_simp
  from update_dependencies_keeps_dependents [OF h, where update_name = "''B.zip''" and deps = "[]"] h
  show ?thesis by blast
qed

section \<open>The file system operations\<close>


lemma write_file_Inr:
  "write_file fs p b = Inr fs' \<Longrightarrow>
     fs' = AList.update p (File b) fs \<and> map_of fs p \<noteq> Some Dir \<and> map_of fs (butlast p) = Some Dir"
  by (auto simp: write_file_def split: option.splits node.splits)

lemma write_file_nonempty: "write_file fs p b = Inr fs' \<Longrightarrow> p \<noteq> []"
  by (auto dest!: write_file_Inr)




















section \<open>The two loops of the delta engine\<close>








declare copy_files.simps(2) [simp del] remove_files.simps(2) [simp del]






lemma os_remove_file: "is_file fs p \<Longrightarrow> os_remove fs p = Inr (AList.delete p fs)"
  by (auto simp: os_remove_def is_file_def)





section \<open>The example of the specification: one file in a directory\<close>





section \<open>Claims about the delta engine\<close>





section \<open>Rendering: the traversal returns\<close>

lemma print_dependencies_from_Nil:
  "print_dependencies_from dd inst indent visited n i [] = Some []"
  by (subst print_dependencies_from.simps) simp

lemmas print_dependencies_from_Cons =
  print_dependencies_from.simps [where deps = "dep # rest" for dep rest, simplified]

lemma dict_get_nonempty_key: "dict_get d k \<noteq> [] \<Longrightarrow> k \<in> fst ` set d"
  by (auto simp: dict_get_def split: option.splits dest: map_of_SomeD intro: rev_image_eqI)

text \<open>
  Each descent adds to \<open>visited\<close> a key of the dependency dictionary that was not in it:
  the number of keys outside \<open>visited\<close> decreases, and the loop over a list ends with
  the list.
\<close>

lemma print_dependencies_from_returns:
  "\<exists>out. print_dependencies_from dd inst indent visited n i deps = Some out"
proof (induction "card (fst ` set (dependencies dd) - set visited)"
       arbitrary: indent visited n i deps rule: less_induct)
  case less
  show ?case
  proof (induction deps arbitrary: i)
    case Nil
    show ?case by (simp add: print_dependencies_from_Nil)
  next
    case (Cons dep rest)
    obtain out where out: "print_dependencies_from dd inst indent visited n (Suc i) rest = Some out"
      using Cons.IH by blast
    show ?case
    proof (cases "dep \<in> set visited")
      case True
      with out show ?thesis by (simp add: print_dependencies_from_Cons Let_def)
    next
      case False
      show ?thesis
      proof (cases "dict_get (dependencies dd) dep = []")
        case True
        with False out show ?thesis by (simp add: print_dependencies_from_Cons Let_def)
      next
        case nonempty: False
        then have "dep \<in> fst ` set (dependencies dd)" by (rule dict_get_nonempty_key)
        with False have "card (fst ` set (dependencies dd) - set (visited @ [dep]))
                        < card (fst ` set (dependencies dd) - set visited)"
          by (intro psubset_card_mono) auto
        from less[OF this] obtain sub where
          "print_dependencies_from dd inst (indent @ (if Suc i = n then ''    '' else indent_mid))
             (visited @ [dep]) (length (dict_get (dependencies dd) dep)) 0
             (dict_get (dependencies dd) dep) = Some sub"
          by blast
        with False nonempty out show ?thesis by (simp add: print_dependencies_from_Cons Let_def)
      qed
    qed
  qed
qed

text \<open>
  Claim C5 (cycle-safe rendering). On every dependency graph, cyclic or not,
  \<open>print_dependencies\<close> returns, whatever the list, the indentation and the path of
  ancestors it is called with. In the loop, a dependency that is on the path of ancestors
  gives exactly one line, with the annotation \<^verbatim>\<open>(circular dependency)\<close>, and the loop
  goes on with the next dependency: nothing is printed below that line.
\<close>

theorem print_dependencies_cycle_safe:
  "(\<exists>out. print_dependencies deps dd inst indent visited = Some out) \<and>
   (dep \<in> set visited \<longrightarrow>
      (\<exists>out. print_dependencies_from dd inst indent visited n (i + 1) rest = Some out \<and>
             print_dependencies_from dd inst indent visited n i (dep # rest) =
               Some ((indent @ (if i + 1 = n then branch_last else branch_mid) @ dep @ '' ''
                      @ (if dep \<in> set inst then ''[INSTALLED]'' else ''[MISSING]'')
                      @ '' (circular dependency)'') # out)))"
proof -
  have "\<exists>out. print_dependencies deps dd inst indent visited = Some out"
    unfolding print_dependencies_def by (rule print_dependencies_from_returns)
  moreover have "\<exists>out. print_dependencies_from dd inst indent visited n (i + 1) rest = Some out \<and>
             print_dependencies_from dd inst indent visited n i (dep # rest) =
               Some ((indent @ (if i + 1 = n then branch_last else branch_mid) @ dep @ '' ''
                      @ (if dep \<in> set inst then ''[INSTALLED]'' else ''[MISSING]'')
                      @ '' (circular dependency)'') # out)"
    if "dep \<in> set visited"
  proof -
    obtain out where "print_dependencies_from dd inst indent visited n (i + 1) rest = Some out"
      using print_dependencies_from_returns by blast
    with that show ?thesis by (simp add: print_dependencies_from_Cons Let_def)
  qed
  ultimately show ?thesis by blast
qed

theorem print_dependencies_cycle_safe_witness:
  "''A.zip'' \<in> set [''A.zip'', ''B.zip''] \<and>
   print_dependencies [''B.zip''] cycle_example [''A.zip''] ''  '' [''A.zip''] =
     Some [''  '' @ branch_last @ ''B.zip [MISSING]'',
           ''      '' @ branch_last @ ''A.zip [INSTALLED] (circular dependency)''] \<and>
   print_dependencies_from cycle_example [''A.zip''] ''      '' [''A.zip'', ''B.zip''] 1 0
       [''A.zip''] =
     Some [''      '' @ branch_last @ ''A.zip [INSTALLED] (circular dependency)'']"
proof -
  have m: "''A.zip'' \<in> set [''A.zip'', ''B.zip'']" by simp
  have e: "print_dependencies [''B.zip''] cycle_example [''A.zip''] ''  '' [''A.zip''] =
     Some [''  '' @ branch_last @ ''B.zip [MISSING]'',
           ''      '' @ branch_last @ ''A.zip [INSTALLED] (circular dependency)'']"
    by (simp add: print_dependencies_def print_dependencies_from_Cons
        print_dependencies_from_Nil cycle_example_def dict_get_def)
  from print_dependencies_cycle_safe
         [where dep = "''A.zip''" and visited = "[''A.zip'', ''B.zip'']" and dd = cycle_example
            and inst = "[''A.zip'']" and indent = "''      ''" and n = 1 and i = 0 and rest = "[]"
            and deps = "[]"]
       m e
  show ?thesis by (simp add: print_dependencies_from_Nil)
qed

section \<open>Naming of a relocated archive\<close>

lemma of_char_digit: "d < 10 \<Longrightarrow> (of_char (char_of (48 + d :: nat)) :: nat) = 48 + d"
  by simp

lemma nat_of_digits_snoc: "nat_of_digits (s @ [c]) = 10 * nat_of_digits s + (of_char c - 48)"
  by (simp add: nat_of_digits_def)

lemma nat_of_digits_str_nat: "nat_of_digits (str_nat n) = n"
proof (induction n rule: str_nat.induct)
  case (1 n)
  show ?case
  proof (cases "n < 10")
    case True
    then show ?thesis
      by (subst str_nat.simps) (simp add: nat_of_digits_def)
  next
    case False
    have "n mod 10 < 10" by simp
    then have d: "(of_char (char_of (48 + n mod 10)) :: nat) = 48 + n mod 10"
      by (rule of_char_digit)
    from False "1.IH" have "nat_of_digits (str_nat (n div 10)) = n div 10" by simp
    with False d show ?thesis
      by (subst str_nat.simps) (simp add: nat_of_digits_snoc)
  qed
qed

lemma inj_str_nat: "inj str_nat"
  by (rule inj_on_inverseI[where g = nat_of_digits]) (rule nat_of_digits_str_nat)

lemma inj_suffixed_name: "inj (suffixed_name base ext)"
  using inj_str_nat by (auto simp: inj_def suffixed_name_def)

lemma finite_suffixed: "finite {j. suffixed_name base ext j \<in> A}" if "finite A"
  using finite_vimageI[OF that inj_suffixed_name, of base ext] by (simp add: vimage_def)

lemma zip_at_Installed_keys:
  "zip_at u (Installed, n) \<noteq> None \<longleftrightarrow> n \<in> fst ` set (installed_files u)"
  by (simp add: zip_at_def bucket_files_def map_of_eq_None_iff)

termination first_free_index
proof (relation "measure (\<lambda>(u, base, ext, i).
         card {j. i \<le> j \<and> suffixed_name base ext j \<in> fst ` set (installed_files u)})", goal_cases)
  case 1
  show ?case by simp
next
  case (2 u base ext i)
  let ?A = "fst ` set (installed_files u)"
  have fin: "finite {j. i \<le> j \<and> suffixed_name base ext j \<in> ?A}"
    using finite_suffixed[of ?A base ext] by (rule rev_finite_subset) auto
  from 2 have "suffixed_name base ext i \<in> ?A"
    using zip_at_Installed_keys[of u "suffixed_name base ext i"] by blast
  then have "i \<in> {j. i \<le> j \<and> suffixed_name base ext j \<in> ?A}" by simp
  moreover have "i \<notin> {j. i + 1 \<le> j \<and> suffixed_name base ext j \<in> ?A}" by simp
  moreover have "{j. i + 1 \<le> j \<and> suffixed_name base ext j \<in> ?A} \<subseteq> {j. i \<le> j \<and> suffixed_name base ext j \<in> ?A}"
    by auto
  ultimately have "{j. i + 1 \<le> j \<and> suffixed_name base ext j \<in> ?A} \<subset> {j. i \<le> j \<and> suffixed_name base ext j \<in> ?A}"
    by blast
  from psubset_card_mono[OF fin this] show ?case by simp
qed

declare first_free_index.simps [simp del]

lemma first_free_index_props:
  "i \<le> first_free_index u base ext i \<and>
   zip_at u (Installed, suffixed_name base ext (first_free_index u base ext i)) = None \<and>
   (\<forall>j. i \<le> j \<and> j < first_free_index u base ext i \<longrightarrow>
        zip_at u (Installed, suffixed_name base ext j) \<noteq> None)"
proof (induction u base ext i rule: first_free_index.induct)
  case (1 u base ext i)
  show ?case
  proof (cases "zip_at u (Installed, suffixed_name base ext i) \<noteq> None")
    case True
    then have eq: "first_free_index u base ext i = first_free_index u base ext (i + 1)"
      by (subst first_free_index.simps) simp
    have "zip_at u (Installed, suffixed_name base ext j) \<noteq> None"
      if "i \<le> j" "j < first_free_index u base ext (i + 1)" for j
    proof (cases "j = i")
      case True
      with \<open>zip_at u (Installed, suffixed_name base ext i) \<noteq> None\<close> show ?thesis by simp
    next
      case False
      with that have "i + 1 \<le> j" by simp
      with "1.IH"[OF True] that(2) show ?thesis by blast
    qed
    moreover from "1.IH"[OF True] have "i \<le> first_free_index u base ext (i + 1)" by simp
    ultimately show ?thesis using "1.IH"[OF True] unfolding eq by blast
  next
    case False
    then have "first_free_index u base ext i = i"
      by (subst first_free_index.simps) simp
    with False show ?thesis by auto
  qed
qed

section \<open>Relocation: what a move does to the buckets\<close>

lemma bucket_files_set_bucket_files:
  "bucket_files (set_bucket_files u b files) b' = (if b' = b then files else bucket_files u b')"
  by (cases b; cases b') (simp_all add: bucket_files_def set_bucket_files_def)

lemma zip_at_set_bucket_files:
  "zip_at (set_bucket_files u b files) loc =
     (if fst loc = b then map_of files (snd loc) else zip_at u loc)"
  by (simp add: zip_at_def bucket_files_set_bucket_files)

lemma dependency_file_set_bucket_files:
  "dependency_file (set_bucket_files u b files) = dependency_file u"
  by (cases b) (simp_all add: set_bucket_files_def)

lemma move_zip_Inl: "move_zip u src dst = Inl e \<Longrightarrow> zip_at u src = None"
  by (auto simp: move_zip_def Let_def split: option.splits if_splits)

lemma move_zip_Inr:
  assumes "move_zip u src dst = Inr u'"
  shows "\<exists>z. zip_at u src = Some z \<and>
     (\<forall>loc. zip_at u' loc = (if loc = dst then Some z else if loc = src then None else zip_at u loc))"
proof -
  from assms obtain z where z: "zip_at u src = Some z"
    by (auto simp: move_zip_def split: option.splits)
  show ?thesis
  proof (cases "src = dst")
    case True
    with assms z have "u' = u" by (simp add: move_zip_def)
    with z True show ?thesis by auto
  next
    case False
    with assms z have u': "u' = set_bucket_files
        (set_bucket_files u (fst src) (AList.delete (snd src) (bucket_files u (fst src))))
        (fst dst)
        (AList.update (snd dst) z
           (bucket_files (set_bucket_files u (fst src) (AList.delete (snd src) (bucket_files u (fst src)))) (fst dst)))"
      by (simp add: move_zip_def Let_def)
    have "zip_at u' loc = (if loc = dst then Some z else if loc = src then None else zip_at u loc)" for loc
      unfolding u' using False
      by (cases loc; cases src; cases dst)
         (auto simp: zip_at_set_bucket_files bucket_files_set_bucket_files update_conv' delete_conv'
               zip_at_def)
    with z show ?thesis by blast
  qed
qed

lemma move_zip_dependency_file:
  "move_zip u src dst = Inr u' \<Longrightarrow> dependency_file u' = dependency_file u"
  by (auto simp: move_zip_def Let_def dependency_file_set_bucket_files split: option.splits if_splits)

lemma move_zip_succeeds: "zip_at u src \<noteq> None \<Longrightarrow> \<exists>u'. move_zip u src dst = Inr u'"
  by (auto simp: move_zip_def Let_def)

lemma zip_at_update_dependencies: "zip_at (update_dependencies u n deps) loc = zip_at u loc"
  by (simp add: zip_at_def bucket_files_def update_dependencies_def save_dependencies_def Let_def
      split: bucket.splits)

lemma files_update_dependencies:
  "root_files (update_dependencies u n deps) = root_files u"
  "installed_files (update_dependencies u n deps) = installed_files u"
  "uninstalled_files (update_dependencies u n deps) = uninstalled_files u"
  by (simp_all add: update_dependencies_def save_dependencies_def Let_def)

lemma apply_update_zip_nonempty:
  "apply_update_zip u loc fs = (fs1, copied, overwritten, failed) \<Longrightarrow>
   copied \<noteq> [] \<or> overwritten \<noteq> [] \<Longrightarrow> zip_at u loc \<noteq> None"
  by (auto simp: apply_update_zip_def split: option.splits)

lemma analyze_update_zip_nonempty:
  "analyze_update_zip u loc fs = (fs1, removed, not_found, failed) \<Longrightarrow>
   removed \<noteq> [] \<Longrightarrow> zip_at u loc \<noteq> None"
  by (auto simp: analyze_update_zip_def split: option.splits)

lemma show_details_world:
  "primary (world_of (show_details b w)) = primary w"
  "updates (world_of (show_details b w)) = updates w"
  by (auto simp: show_details_def input_def split: option.splits list.splits)

lemma install_target_path_props:
  "fst (install_target_path u zip_name) = Installed \<and>
   zip_at u (install_target_path u zip_name) = None"
  using first_free_index_props[of 1 u "fst (splitext zip_name)" "snd (splitext zip_name)"]
  by (auto simp: install_target_path_def Let_def split: prod.splits)

section \<open>The rounds of the orchestrator\<close>

lemma install_update_moved:
  assumes src: "fst source_path \<noteq> Installed"
    and app: "apply_update_zip (update_dependencies (updates w) zip_name deps) source_path (primary w)
                = (fs1, copied, overwritten, failed)"
    and some: "length copied + length overwritten > 0"
  shows "\<exists>z. zip_at (updates w) source_path = Some z \<and>
     (\<forall>loc. zip_at (updates (world_of (install_update w (zip_name, source_path) (Some deps)))) loc =
        (if loc = install_target_path (update_dependencies (updates w) zip_name deps) zip_name
         then Some z else if loc = source_path then None else zip_at (updates w) loc))"
proof -
  let ?u1 = "update_dependencies (updates w) zip_name deps"
  let ?t = "install_target_path ?u1 zip_name"
  from some have ne: "copied \<noteq> [] \<or> overwritten \<noteq> []" by auto
  from apply_update_zip_nonempty[OF app ne] have "zip_at ?u1 source_path \<noteq> None" .
  from move_zip_succeeds[OF this] obtain u' where mv: "move_zip ?u1 source_path ?t = Inr u'"
    by blast
  from move_zip_Inr[OF mv] obtain z where z: "zip_at ?u1 source_path = Some z"
    and all: "\<And>loc. zip_at u' loc = (if loc = ?t then Some z else if loc = source_path then None
                                       else zip_at ?u1 loc)"
    by blast
  from app mv ne have "updates (world_of (install_update w (zip_name, source_path) (Some deps))) = u'"
    by (auto simp: install_update_def Let_def show_details_world)
  with z all show ?thesis by (simp add: zip_at_update_dependencies)
qed

lemma install_update_not_moved:
  assumes app: "apply_update_zip (update_dependencies (updates w) zip_name deps) source_path (primary w)
                = (fs1, copied, overwritten, failed)"
    and none: "length copied + length overwritten = 0"
  shows "updates (world_of (install_update w (zip_name, source_path) (Some deps))) =
           update_dependencies (updates w) zip_name deps"
  using app none by (auto simp: install_update_def Let_def show_details_world)

lemma input_world:
  "input p w = Some (l, w') \<Longrightarrow> primary w' = primary w \<and> updates w' = updates w"
  by (auto simp: input_def split: list.splits)

lemma remove_unused_deps_keeps:
  "zip_at (updates w) (Installed, z) = None \<Longrightarrow>
     zip_at (updates (remove_unused_deps w deps)) (Installed, z) = None \<and>
     zip_at (updates (remove_unused_deps w deps)) (Uninstalled, z) = zip_at (updates w) (Uninstalled, z)"
proof (induction deps arbitrary: w)
  case Nil
  then show ?case by simp
next
  case (Cons dep rest)
  show ?case
  proof (cases "zip_at (updates w) (Installed, dep) \<noteq> None")
    case False
    with Cons show ?thesis by simp
  next
    case True
    with Cons.prems have neq: "dep \<noteq> z" by auto
    obtain fs1 r nf f where an: "analyze_update_zip (updates w) (Installed, dep) (primary w) = (fs1, r, nf, f)"
      by (cases "analyze_update_zip (updates w) (Installed, dep) (primary w)")
    show ?thesis
    proof (cases "length r > 0")
      case False
      with True an Cons.IH[of "w\<lparr>primary := fs1\<rparr>"] Cons.prems show ?thesis by simp
    next
      case nonempty: True
      show ?thesis
      proof (cases "move_zip (updates w) (Installed, dep) (Uninstalled, dep)")
        case (Inl e)
        with True an nonempty Cons.prems show ?thesis by simp
      next
        case (Inr u')
        from move_zip_Inr[OF Inr] neq Cons.prems
        have k: "zip_at u' (Installed, z) = None"
          "zip_at u' (Uninstalled, z) = zip_at (updates w) (Uninstalled, z)"
          by auto
        from Cons.IH[of "w\<lparr>primary := fs1, updates := u'\<rparr>"] k
        have "zip_at (updates (remove_unused_deps (w\<lparr>primary := fs1, updates := u'\<rparr>) rest)) (Installed, z) = None \<and>
              zip_at (updates (remove_unused_deps (w\<lparr>primary := fs1, updates := u'\<rparr>) rest)) (Uninstalled, z)
                = zip_at (updates w) (Uninstalled, z)"
          by simp
        with True an nonempty Inr show ?thesis by simp
      qed
    qed
  qed
qed

lemma relocate_removed_moved:
  assumes "zip_at (updates w) (Installed, name) = Some z"
  shows "zip_at (updates (relocate_removed w (name, (Installed, name)))) (Installed, name) = None \<and>
         zip_at (updates (relocate_removed w (name, (Installed, name)))) (Uninstalled, name) = Some z"
proof -
  from assms obtain u1 where mv: "move_zip (updates w) (Installed, name) (Uninstalled, name) = Inr u1"
    using move_zip_succeeds[of "updates w" "(Installed, name)"] by auto
  from move_zip_Inr[OF mv] assms have k: "zip_at u1 (Installed, name) = None"
    "zip_at u1 (Uninstalled, name) = Some z" by auto
  let ?w1 = "w\<lparr>updates := u1\<rparr>"
  let ?unused = "check_unused_dependencies u1 name"
  show ?thesis
  proof (cases "?unused \<noteq> []")
    case False
    with mv k show ?thesis by (simp add: relocate_removed_def Let_def)
  next
    case True
    show ?thesis
    proof (cases "input unused_prompt ?w1")
      case None
      with mv k True show ?thesis by (simp add: relocate_removed_def Let_def)
    next
      case (Some a)
      obtain line w2 where a: "a = (line, w2)" by (cases a)
      from input_world[OF Some[unfolded a]] have w2: "updates w2 = u1" by simp
      show ?thesis
      proof (cases "strip_lower line = ''y''")
        case False
        with mv k True Some a w2 show ?thesis by (simp add: relocate_removed_def Let_def)
      next
        case yes: True
        from remove_unused_deps_keeps[of w2 name ?unused] k w2
        have "zip_at (updates (remove_unused_deps w2 ?unused)) (Installed, name) = None \<and>
              zip_at (updates (remove_unused_deps w2 ?unused)) (Uninstalled, name) = Some z"
          by simp
        with mv True Some a yes show ?thesis by (simp add: relocate_removed_def Let_def)
      qed
    qed
  qed
qed

lemma relocation_gate_selected:
  "(fst source_path \<noteq> Installed \<and>
    apply_update_zip (update_dependencies (updates w) zip_name deps) source_path (primary w)
      = (fs1, copied, overwritten, failed) \<longrightarrow>
      (length copied + length overwritten > 0 \<longrightarrow>
         zip_at (updates w) source_path \<noteq> None \<and>
         zip_at (updates (world_of (install_update w (zip_name, source_path) (Some deps)))) source_path = None \<and>
         (\<exists>name. zip_at (updates w) (Installed, name) = None \<and>
             zip_at (updates (world_of (install_update w (zip_name, source_path) (Some deps)))) (Installed, name)
               = zip_at (updates w) source_path)) \<and>
      (length copied + length overwritten = 0 \<longrightarrow>
         root_files (updates (world_of (install_update w (zip_name, source_path) (Some deps))))
           = root_files (updates w) \<and>
         installed_files (updates (world_of (install_update w (zip_name, source_path) (Some deps))))
           = installed_files (updates w) \<and>
         uninstalled_files (updates (world_of (install_update w (zip_name, source_path) (Some deps))))
           = uninstalled_files (updates w))) \<and>
   (analyze_update_zip (updates v) (Installed, name) (primary v) = (fs2, removed, not_found, failed2) \<longrightarrow>
      (length removed > 0 \<longrightarrow>
         zip_at (updates v) (Installed, name) \<noteq> None \<and>
         zip_at (updates (world_of (remove_confirmed v (name, (Installed, name))))) (Installed, name) = None \<and>
         zip_at (updates (world_of (remove_confirmed v (name, (Installed, name))))) (Uninstalled, name)
           = zip_at (updates v) (Installed, name)) \<and>
      (length removed = 0 \<longrightarrow>
         updates (world_of (remove_confirmed v (name, (Installed, name)))) = updates v))"
proof (intro conjI impI)
  assume h: "fst source_path \<noteq> Installed \<and>
    apply_update_zip (update_dependencies (updates w) zip_name deps) source_path (primary w)
      = (fs1, copied, overwritten, failed)"
  let ?w' = "world_of (install_update w (zip_name, source_path) (Some deps))"
  let ?t = "install_target_path (update_dependencies (updates w) zip_name deps) zip_name"
  {
    assume some: "0 < length copied + length overwritten"
    from install_update_moved[OF h[THEN conjunct1] h[THEN conjunct2] some] obtain z where
      z: "zip_at (updates w) source_path = Some z" and
      all: "\<And>loc. zip_at (updates ?w') loc =
         (if loc = ?t then Some z else if loc = source_path then None else zip_at (updates w) loc)"
      by blast
    from install_target_path_props[of "update_dependencies (updates w) zip_name deps" zip_name]
    have t: "fst ?t = Installed" "zip_at (updates w) ?t = None"
      by (simp_all add: zip_at_update_dependencies)
    from z show "zip_at (updates w) source_path \<noteq> None" by simp
    from t h have "source_path \<noteq> ?t" by auto
    with all[of source_path] show "zip_at (updates ?w') source_path = None" by simp
    from t obtain n where n: "?t = (Installed, n)" by (cases ?t) auto
    with t(2) all[of ?t] z
    show "\<exists>name. zip_at (updates w) (Installed, name) = None \<and>
             zip_at (updates ?w') (Installed, name) = zip_at (updates w) source_path"
      by (intro exI[of _ n]) simp
  }
  {
    assume none: "length copied + length overwritten = 0"
    from install_update_not_moved[OF h[THEN conjunct2] none]
    show "root_files (updates ?w') = root_files (updates w)"
      "installed_files (updates ?w') = installed_files (updates w)"
      "uninstalled_files (updates ?w') = uninstalled_files (updates w)"
      by (simp_all add: files_update_dependencies)
  }
next
  assume an: "analyze_update_zip (updates v) (Installed, name) (primary v) = (fs2, removed, not_found, failed2)"
  let ?v' = "world_of (remove_confirmed v (name, (Installed, name)))"
  {
    assume some: "0 < length removed"
    then have ne: "removed \<noteq> []" by auto
    from analyze_update_zip_nonempty[OF an ne] obtain z where
      z: "zip_at (updates v) (Installed, name) = Some z" by auto
    from z show "zip_at (updates v) (Installed, name) \<noteq> None" by simp
    from an some have "updates ?v' = updates (relocate_removed (v\<lparr>primary := fs2\<rparr>) (name, (Installed, name)))"
      by (simp add: remove_confirmed_def Let_def show_details_world)
    with relocate_removed_moved[of "v\<lparr>primary := fs2\<rparr>" name z] z
    show "zip_at (updates ?v') (Installed, name) = None"
      "zip_at (updates ?v') (Uninstalled, name) = zip_at (updates v) (Installed, name)"
      by simp_all
  }
  {
    assume "length removed = 0"
    with an show "updates ?v' = updates v"
      by (simp add: remove_confirmed_def Let_def show_details_world)
  }
qed

lemma remove_all_item_gate:
  assumes an: "analyze_update_zip (updates v) (Installed, name) (primary v) = (fs2, removed, not_found, failed2)"
  shows "(length removed > 0 \<longrightarrow>
            zip_at (updates (remove_all_item (name, (Installed, name)) v)) (Installed, name) = None \<and>
            zip_at (updates (remove_all_item (name, (Installed, name)) v)) (Uninstalled, name)
              = zip_at (updates v) (Installed, name)) \<and>
         (length removed = 0 \<longrightarrow> updates (remove_all_item (name, (Installed, name)) v) = updates v)"
proof (intro conjI impI)
  assume some: "0 < length removed"
  then have ne: "removed \<noteq> []" by auto
  from analyze_update_zip_nonempty[OF an ne] obtain z where
    z: "zip_at (updates v) (Installed, name) = Some z" by auto
  then obtain u1 where mv: "move_zip (updates v) (Installed, name) (Uninstalled, name) = Inr u1"
    using move_zip_succeeds[of "updates v" "(Installed, name)"] by auto
  from move_zip_Inr[OF mv] z have k: "zip_at u1 (Installed, name) = None"
    "zip_at u1 (Uninstalled, name) = Some z" by auto
  from an some mv have "updates (remove_all_item (name, (Installed, name)) v) = u1"
    by (simp add: remove_all_item_def)
  with k z show "zip_at (updates (remove_all_item (name, (Installed, name)) v)) (Installed, name) = None"
    "zip_at (updates (remove_all_item (name, (Installed, name)) v)) (Uninstalled, name)
              = zip_at (updates v) (Installed, name)"
    by simp_all
next
  assume "length removed = 0"
  with an show "updates (remove_all_item (name, (Installed, name)) v) = updates v"
    by (simp add: remove_all_item_def)
qed

lemma remove_all_item_io:
  "stdin (remove_all_item item w) = stdin w" "transcript (remove_all_item item w) = transcript w"
  by (auto simp: remove_all_item_def split: prod.splits sum.splits)

lemma fold_remove_all_item_io:
  "stdin (fold remove_all_item zs w) = stdin w \<and> transcript (fold remove_all_item zs w) = transcript w"
  by (induction zs arbitrary: w) (simp_all add: remove_all_item_io)

lemma remove_all_item_frame:
  "remove_all_item item (w\<lparr>stdin := s, transcript := t\<rparr>) = (remove_all_item item w)\<lparr>stdin := s, transcript := t\<rparr>"
  by (auto simp: remove_all_item_def split: prod.splits sum.splits)

lemma fold_remove_all_item_frame:
  "fold remove_all_item zs (w\<lparr>stdin := s, transcript := t\<rparr>) = (fold remove_all_item zs w)\<lparr>stdin := s, transcript := t\<rparr>"
  by (induction zs arbitrary: w) (simp_all add: remove_all_item_frame)

lemma remove_unused_deps_transcript:
  "transcript (remove_unused_deps w deps) = transcript w"
proof (induction deps arbitrary: w)
  case Nil
  show ?case by simp
next
  case (Cons dep rest)
  show ?case
    by (auto simp: Let_def Cons.IH split: prod.splits sum.splits)
qed

lemma show_details_transcript:
  "\<exists>t. transcript (world_of (show_details b w)) = transcript w @ t"
  by (auto simp: show_details_def input_def split: list.splits)

lemma remove_all_updates_transcript:
  "transcript (world_of (remove_all_updates w)) =
     transcript w @ (if get_installed_updates (updates w) = [] \<or> stdin w = [] then []
                     else [(remove_all_prompt, hd (stdin w))])"
  by (auto simp: remove_all_updates_def Let_def input_def fold_remove_all_item_io split: list.splits)

lemma remove_all_updates_confirmed:
  assumes "get_installed_updates (updates w) \<noteq> []" "stdin w = a # rest" "strip_lower a = ''y''"
  shows "remove_all_updates w =
     Returned ((fold remove_all_item (get_installed_updates (updates w)) w)
                 \<lparr>stdin := rest, transcript := transcript w @ [(remove_all_prompt, a)]\<rparr>)"
  using assms by (simp add: remove_all_updates_def Let_def input_def fold_remove_all_item_frame)

lemma remove_confirmed_agrees:
  assumes "\<forall>a. (unused_prompt, a) \<in> set (drop (length (transcript w))
              (transcript (world_of (remove_confirmed w item)))) \<longrightarrow> strip_lower a \<noteq> ''y''"
  shows "primary (world_of (remove_confirmed w item)) = primary (remove_all_item item w) \<and>
         updates (world_of (remove_confirmed w item)) = updates (remove_all_item item w)"
proof -
  obtain zip_name zip_path where item: "item = (zip_name, zip_path)" by (cases item)
  obtain fs1 removed nf failed where
    an: "analyze_update_zip (updates w) zip_path (primary w) = (fs1, removed, nf, failed)"
    by (cases "analyze_update_zip (updates w) zip_path (primary w)")
  let ?w1 = "w\<lparr>primary := fs1\<rparr>"
  show ?thesis
  proof (cases "length removed > 0")
    case False
    with an item show ?thesis
      by (simp add: remove_confirmed_def remove_all_item_def Let_def show_details_world)
  next
    case True
    let ?w2 = "relocate_removed ?w1 item"
    from True an item have out: "remove_confirmed w item = show_details True ?w2"
      by (auto simp: remove_confirmed_def Let_def)
    show ?thesis
    proof (cases "move_zip (updates w) zip_path (Uninstalled, zip_name)")
      case (Inl e)
      with True an item out show ?thesis
        by (simp add: relocate_removed_def remove_all_item_def show_details_world)
    next
      case (Inr u1)
      let ?w1' = "?w1\<lparr>updates := u1\<rparr>"
      let ?unused = "check_unused_dependencies u1 zip_name"
      have goal: "primary ?w2 = fs1 \<and> updates ?w2 = u1"
      proof (cases "?unused \<noteq> []")
        case False
        with Inr item show ?thesis by (simp add: relocate_removed_def Let_def)
      next
        case unused: True
        show ?thesis
        proof (cases "input unused_prompt ?w1'")
          case None
          with Inr item unused show ?thesis by (simp add: relocate_removed_def Let_def)
        next
          case (Some r)
          obtain line w3 where r: "r = (line, w3)" by (cases r)
          from Some r have w3: "primary w3 = fs1" "updates w3 = u1"
            "transcript w3 = transcript w @ [(unused_prompt, line)]"
            by (auto simp: input_def split: list.splits)
          show ?thesis
          proof (cases "strip_lower line = ''y''")
            case False
            with Inr item unused Some r w3 show ?thesis by (simp add: relocate_removed_def Let_def)
          next
            case yes: True
            with Inr item unused Some r have "?w2 = remove_unused_deps w3 ?unused"
              by (simp add: relocate_removed_def Let_def)
            with remove_unused_deps_transcript[of w3 ?unused] w3
            have "transcript ?w2 = transcript w @ [(unused_prompt, line)]" by simp
            with show_details_transcript[of True ?w2] out
            obtain t where "transcript (world_of (remove_confirmed w item))
                = transcript w @ (unused_prompt, line) # t" by auto
            then have "(unused_prompt, line) \<in> set (drop (length (transcript w))
                (transcript (world_of (remove_confirmed w item))))" by simp
            with assms yes show ?thesis by blast
          qed
        qed
      qed
      with True an item out Inr show ?thesis
        by (simp add: remove_all_item_def show_details_world)
    qed
  qed
qed

section \<open>The examples of a collision and of a dependent update\<close>

lemma collision_apply:
  "apply_update_zip (update_dependencies (updates collision_world) ''pkg.zip'' []) (Root, ''pkg.zip'')
     (primary collision_world) = ([([], Dir), ([''f.txt''], File ''new'')], [[''f.txt'']], [], [])"
  by (simp add: collision_world_def update_dependencies_def save_dependencies_def load_dependencies_def
      apply_update_zip_def zip_at_def bucket_files_def extractall_def extract_member_def Let_def
      path_exists_def isdir_def mkdir_def write_file_def copy2_def
      walk.simps[of _ "[]"] children_def copy_files.simps makedirs.simps[of _ "[]"])

lemma collision_target:
  "install_target_path (update_dependencies (updates collision_world) ''pkg.zip'' []) ''pkg.zip''
     = (Installed, ''pkg_2.zip'')"
  by code_simp

lemma collision_install:
  "installed_files (updates (world_of (install_update collision_world (''pkg.zip'', (Root, ''pkg.zip'')) (Some []))))
     = [(''pkg.zip'', ZipFile [ZipEntry [''g.txt''] False ''old'']), (''pkg_1.zip'', ZipFile []),
        (''pkg_2.zip'', ZipFile [ZipEntry [''f.txt''] False ''new''])]"
  by (simp add: install_update_def collision_apply collision_target Let_def show_details_world)
     (simp add: move_zip_def collision_world_def update_dependencies_def save_dependencies_def
        load_dependencies_def zip_at_def bucket_files_def set_bucket_files_def Let_def)

lemma empty_apply:
  "apply_update_zip (update_dependencies (updates collision_world) ''empty.zip'' []) (Root, ''empty.zip'')
     (primary collision_world) = ([([], Dir)], [], [], [])"
  by (simp add: collision_world_def update_dependencies_def save_dependencies_def load_dependencies_def
      apply_update_zip_def zip_at_def bucket_files_def extractall_def Let_def
      path_exists_def isdir_def mkdir_def
      walk.simps[of _ "[]"] children_def makedirs.simps[of _ "[]"])

lemma orphan_analyze:
  "analyze_update_zip (updates orphan_world) (Installed, ''B.zip'') (primary orphan_world)
     = ([([], Dir), ([''a.txt''], File ''a'')], [[''b.txt'']], [], [])"
  by code_simp

lemma empty_analyze:
  "analyze_update_zip (updates collision_world) (Installed, ''pkg_1.zip'') (primary collision_world)
     = ([([], Dir)], [], [], [])"
  by code_simp

lemma orphan_confirmed:
  "world_of (remove_confirmed orphan_world (''B.zip'', (Installed, ''B.zip''))) =
  \<lparr>primary = [([], Dir), ([''a.txt''], File ''a'')],
      updates =
        \<lparr>root_files = [],
         installed_files = [(''A.zip'', ZipFile [ZipEntry [''a.txt''] False ''a''])],
         uninstalled_files = [(''B.zip'', ZipFile [ZipEntry [''b.txt''] False ''b''])],
         dependency_file = Some \<lparr>dependencies = [(''A.zip'', []), (''B.zip'', [''A.zip''])],
                                  dependents = [(''A.zip'', [''B.zip''])]\<rparr>\<rparr>,
      stdin = [],
      transcript = [(unused_prompt, ''n''), (details_prompt, ''n'')]\<rparr>"
  by code_simp

lemma warning_all:
  "world_of (remove_all_updates warning_world) =
  \<lparr>primary = [([], Dir)],
      updates =
        \<lparr>root_files = [],
         installed_files = [],
         uninstalled_files = [(''A.zip'', ZipFile [ZipEntry [''a.txt''] False ''a'']),
                            (''B.zip'', ZipFile [ZipEntry [''b.txt''] False ''b''])],
         dependency_file = Some \<lparr>dependencies = [(''A.zip'', []), (''B.zip'', [''A.zip''])],
                                  dependents = [(''A.zip'', [''B.zip''])]\<rparr>\<rparr>,
      stdin = [''n'', ''n'', ''n''],
      transcript = [(remove_all_prompt, ''y'')]\<rparr>"
  by code_simp

section \<open>Claims about the orchestrator\<close>

text \<open>
  Claim C6 (relocation gate). On an install from the root or from the bucket of
  uninstalled archives: when the number of copied plus overwritten files is positive, the
  archive leaves its source and is stored in the installed bucket, under a name that was
  free; when it is zero, the three buckets are as before. On a removal of an installed
  archive, by the round of \<^verbatim>\<open>remove_selected_updates\<close> and by the round of
  \<^verbatim>\<open>remove_all_updates\<close>: when at least one file was removed, the archive leaves the
  installed bucket and is stored in the uninstalled bucket under its name; when none was,
  the updates directory is as before.
\<close>

theorem relocation_gate:
  "(fst source_path \<noteq> Installed \<and>
    apply_update_zip (update_dependencies (updates w) zip_name deps) source_path (primary w)
      = (fs1, copied, overwritten, failed) \<longrightarrow>
      (length copied + length overwritten > 0 \<longrightarrow>
         zip_at (updates w) source_path \<noteq> None \<and>
         zip_at (updates (world_of (install_update w (zip_name, source_path) (Some deps)))) source_path = None \<and>
         (\<exists>name. zip_at (updates w) (Installed, name) = None \<and>
             zip_at (updates (world_of (install_update w (zip_name, source_path) (Some deps)))) (Installed, name)
               = zip_at (updates w) source_path)) \<and>
      (length copied + length overwritten = 0 \<longrightarrow>
         root_files (updates (world_of (install_update w (zip_name, source_path) (Some deps))))
           = root_files (updates w) \<and>
         installed_files (updates (world_of (install_update w (zip_name, source_path) (Some deps))))
           = installed_files (updates w) \<and>
         uninstalled_files (updates (world_of (install_update w (zip_name, source_path) (Some deps))))
           = uninstalled_files (updates w))) \<and>
   (analyze_update_zip (updates v) (Installed, name) (primary v) = (fs2, removed, not_found, failed2) \<longrightarrow>
      (length removed > 0 \<longrightarrow>
         zip_at (updates v) (Installed, name) \<noteq> None \<and>
         zip_at (updates (world_of (remove_confirmed v (name, (Installed, name))))) (Installed, name) = None \<and>
         zip_at (updates (world_of (remove_confirmed v (name, (Installed, name))))) (Uninstalled, name)
           = zip_at (updates v) (Installed, name) \<and>
         zip_at (updates (remove_all_item (name, (Installed, name)) v)) (Installed, name) = None \<and>
         zip_at (updates (remove_all_item (name, (Installed, name)) v)) (Uninstalled, name)
           = zip_at (updates v) (Installed, name)) \<and>
      (length removed = 0 \<longrightarrow>
         updates (world_of (remove_confirmed v (name, (Installed, name)))) = updates v \<and>
         updates (remove_all_item (name, (Installed, name)) v) = updates v))"
  using relocation_gate_selected[of source_path w zip_name deps fs1 copied overwritten failed v name fs2 removed not_found failed2]
    remove_all_item_gate[of v name fs2 removed not_found failed2]
  by blast

theorem relocation_gate_witness:
  "fst (Root, ''pkg.zip'') \<noteq> Installed \<and>
   apply_update_zip (update_dependencies (updates collision_world) ''pkg.zip'' []) (Root, ''pkg.zip'')
     (primary collision_world) = ([([], Dir), ([''f.txt''], File ''new'')], [[''f.txt'']], [], []) \<and>
   0 < length [[''f.txt'']] + length ([] :: path list) \<and>
   zip_at (updates (world_of (install_update collision_world (''pkg.zip'', (Root, ''pkg.zip'')) (Some []))))
     (Root, ''pkg.zip'') = None \<and>
   analyze_update_zip (updates orphan_world) (Installed, ''B.zip'') (primary orphan_world)
     = ([([], Dir), ([''a.txt''], File ''a'')], [[''b.txt'']], [], []) \<and>
   0 < length [[''b.txt'']] \<and>
   zip_at (updates (world_of (remove_confirmed orphan_world (''B.zip'', (Installed, ''B.zip'')))))
     (Uninstalled, ''B.zip'') = zip_at (updates orphan_world) (Installed, ''B.zip'') \<and>
   zip_at (updates (remove_all_item (''B.zip'', (Installed, ''B.zip'')) orphan_world))
     (Installed, ''B.zip'') = None \<and>
   apply_update_zip (update_dependencies (updates collision_world) ''empty.zip'' []) (Root, ''empty.zip'')
     (primary collision_world) = ([([], Dir)], [], [], []) \<and>
   length ([] :: path list) + length ([] :: path list) = 0 \<and>
   root_files (updates (world_of (install_update collision_world (''empty.zip'', (Root, ''empty.zip'')) (Some []))))
     = root_files (updates collision_world) \<and>
   installed_files (updates (world_of (install_update collision_world (''empty.zip'', (Root, ''empty.zip'')) (Some []))))
     = installed_files (updates collision_world) \<and>
   analyze_update_zip (updates collision_world) (Installed, ''pkg_1.zip'') (primary collision_world)
     = ([([], Dir)], [], [], []) \<and>
   updates (world_of (remove_confirmed collision_world (''pkg_1.zip'', (Installed, ''pkg_1.zip''))))
     = updates collision_world \<and>
   updates (remove_all_item (''pkg_1.zip'', (Installed, ''pkg_1.zip'')) collision_world)
     = updates collision_world"
  using
    relocation_gate[of "(Root, ''pkg.zip'')" collision_world "''pkg.zip''" "[]"
      "[([], Dir), ([''f.txt''], File ''new'')]" "[[''f.txt'']]" "[]" "[]"
      orphan_world "''B.zip''" "[([], Dir), ([''a.txt''], File ''a'')]" "[[''b.txt'']]" "[]" "[]"]
    relocation_gate[of "(Root, ''empty.zip'')" collision_world "''empty.zip''" "[]"
      "[([], Dir)]" "[]" "[]" "[]"
      collision_world "''pkg_1.zip''" "[([], Dir)]" "[]" "[]" "[]"]
  by (simp add: collision_apply empty_apply orphan_analyze empty_analyze)

text \<open>
  Claim C9 (collision-safe relocation on install). An archive is installed from the root
  or from the bucket of uninstalled archives while an archive of its name is already
  installed, and at least one file is transferred. Then the archive is stored in the
  installed bucket under the name \<open>base_i.ext\<close> for the first \<open>i = 1, 2, \<dots>\<close> whose name is free
  there: every smaller index is taken, the chosen name was free before, the archive stored
  under it is the one that was at the source, and every archive that was installed before
  is still stored, unchanged, under its name.
\<close>

theorem install_relocation_collision_safe:
  assumes coll: "zip_at (updates w) (Installed, zip_name) \<noteq> None"
    and src: "fst source_path \<noteq> Installed"
    and app: "apply_update_zip (update_dependencies (updates w) zip_name deps) source_path (primary w)
                = (fs1, copied, overwritten, failed)"
    and some: "length copied + length overwritten > 0"
  shows "\<exists>i\<ge>1.
     (\<forall>j. 1 \<le> j \<and> j < i \<longrightarrow>
        zip_at (updates w)
          (Installed, suffixed_name (fst (splitext zip_name)) (snd (splitext zip_name)) j) \<noteq> None) \<and>
     zip_at (updates w)
       (Installed, suffixed_name (fst (splitext zip_name)) (snd (splitext zip_name)) i) = None \<and>
     zip_at (updates w) source_path \<noteq> None \<and>
     zip_at (updates (world_of (install_update w (zip_name, source_path) (Some deps))))
       (Installed, suffixed_name (fst (splitext zip_name)) (snd (splitext zip_name)) i)
       = zip_at (updates w) source_path \<and>
     (\<forall>n. zip_at (updates w) (Installed, n) \<noteq> None \<longrightarrow>
        zip_at (updates (world_of (install_update w (zip_name, source_path) (Some deps)))) (Installed, n)
          = zip_at (updates w) (Installed, n))"
proof -
  let ?u1 = "update_dependencies (updates w) zip_name deps"
  let ?base = "fst (splitext zip_name)" and ?ext = "snd (splitext zip_name)"
  let ?i = "first_free_index ?u1 ?base ?ext 1"
  let ?w' = "world_of (install_update w (zip_name, source_path) (Some deps))"
  from coll have t: "install_target_path ?u1 zip_name = (Installed, suffixed_name ?base ?ext ?i)"
    by (simp add: install_target_path_def Let_def zip_at_update_dependencies split: prod.splits)
  from first_free_index_props[of 1 ?u1 ?base ?ext]
  have p: "1 \<le> ?i" "zip_at (updates w) (Installed, suffixed_name ?base ?ext ?i) = None"
    "\<And>j. 1 \<le> j \<and> j < ?i \<Longrightarrow> zip_at (updates w) (Installed, suffixed_name ?base ?ext j) \<noteq> None"
    by (simp_all add: zip_at_update_dependencies)
  from install_update_moved[OF src app some] obtain z where
    z: "zip_at (updates w) source_path = Some z" and
    all: "\<And>loc. zip_at (updates ?w') loc =
        (if loc = (Installed, suffixed_name ?base ?ext ?i) then Some z
         else if loc = source_path then None else zip_at (updates w) loc)"
    unfolding t by blast
  have keep: "zip_at (updates ?w') (Installed, n) = zip_at (updates w) (Installed, n)"
    if "zip_at (updates w) (Installed, n) \<noteq> None" for n
  proof -
    from that p(2) have "(Installed, n) \<noteq> (Installed, suffixed_name ?base ?ext ?i)" by auto
    moreover from src have "(Installed, n) \<noteq> source_path" by auto
    ultimately show ?thesis by (simp add: all)
  qed
  from p z all keep show ?thesis
    by (intro exI[of _ ?i]) simp
qed

theorem install_relocation_collision_safe_witness:
  "zip_at (updates collision_world) (Installed, ''pkg.zip'') \<noteq> None \<and>
   fst (Root, ''pkg.zip'') \<noteq> Installed \<and>
   apply_update_zip (update_dependencies (updates collision_world) ''pkg.zip'' []) (Root, ''pkg.zip'')
     (primary collision_world) = ([([], Dir), ([''f.txt''], File ''new'')], [[''f.txt'']], [], []) \<and>
   0 < length [[''f.txt'']] + length ([] :: path list) \<and>
   installed_files (updates (world_of (install_update collision_world (''pkg.zip'', (Root, ''pkg.zip'')) (Some []))))
     = [(''pkg.zip'', ZipFile [ZipEntry [''g.txt''] False ''old'']), (''pkg_1.zip'', ZipFile []),
        (''pkg_2.zip'', ZipFile [ZipEntry [''f.txt''] False ''new''])] \<and>
   (\<exists>i\<ge>1.
     zip_at (updates collision_world)
       (Installed, suffixed_name (fst (splitext ''pkg.zip'')) (snd (splitext ''pkg.zip'')) i) = None \<and>
     zip_at (updates (world_of (install_update collision_world (''pkg.zip'', (Root, ''pkg.zip'')) (Some []))))
       (Installed, suffixed_name (fst (splitext ''pkg.zip'')) (snd (splitext ''pkg.zip'')) i)
       = zip_at (updates collision_world) (Root, ''pkg.zip''))"
proof -
  have a: "zip_at (updates collision_world) (Installed, ''pkg.zip'') \<noteq> None"
    by (simp add: collision_world_def zip_at_def bucket_files_def)
  have b: "fst (Root, ''pkg.zip'') \<noteq> Installed" by simp
  have d: "0 < length [[''f.txt'']] + length ([] :: path list)" by simp
  from install_relocation_collision_safe[OF a b collision_apply d] obtain i where "i \<ge> 1"
    "zip_at (updates collision_world)
       (Installed, suffixed_name (fst (splitext ''pkg.zip'')) (snd (splitext ''pkg.zip'')) i) = None"
    "zip_at (updates (world_of (install_update collision_world (''pkg.zip'', (Root, ''pkg.zip'')) (Some []))))
       (Installed, suffixed_name (fst (splitext ''pkg.zip'')) (snd (splitext ''pkg.zip'')) i)
       = zip_at (updates collision_world) (Root, ''pkg.zip'')"
    by blast
  with a b collision_apply d collision_install show ?thesis by blast
qed

text \<open>
  Claim C7, amended (bulk removal). \<^verbatim>\<open>remove_all_updates\<close> asks one question, the confirmation
  of the whole batch, and only when some update is installed; it asks nothing for an item.
  Once confirmed, it runs its round over the installed updates in listing order. This
  round is the per-item removal after the dependents warning, without the search for
  unused dependencies: both leave the same primary folder and the same updates directory
  whenever the per-item removal does not get the answer \<^verbatim>\<open>y\<close> to its question about unused
  dependencies (in particular whenever it does not ask it).
\<close>

theorem remove_all_updates_single_confirmation:
  "transcript (world_of (remove_all_updates w)) =
     transcript w @ (if get_installed_updates (updates w) = [] \<or> stdin w = [] then []
                     else [(remove_all_prompt, hd (stdin w))]) \<and>
   (get_installed_updates (updates w) \<noteq> [] \<and> stdin w = a # rest \<and> strip_lower a = ''y'' \<longrightarrow>
      primary (world_of (remove_all_updates w)) =
        primary (fold remove_all_item (get_installed_updates (updates w)) w) \<and>
      updates (world_of (remove_all_updates w)) =
        updates (fold remove_all_item (get_installed_updates (updates w)) w)) \<and>
   ((\<forall>l. (unused_prompt, l) \<in> set (drop (length (transcript v))
              (transcript (world_of (remove_confirmed v item)))) \<longrightarrow> strip_lower l \<noteq> ''y'') \<longrightarrow>
      primary (world_of (remove_confirmed v item)) = primary (remove_all_item item v) \<and>
      updates (world_of (remove_confirmed v item)) = updates (remove_all_item item v))"
  using remove_all_updates_transcript[of w] remove_all_updates_confirmed[of w a rest]
    remove_confirmed_agrees[of v item]
  by simp

theorem remove_all_updates_single_confirmation_witness:
  "get_installed_updates (updates warning_world) \<noteq> [] \<and>
   stdin warning_world = ''y'' # [''n'', ''n'', ''n''] \<and> strip_lower ''y'' = ''y'' \<and>
   transcript (world_of (remove_all_updates warning_world)) = [(remove_all_prompt, ''y'')] \<and>
   primary (fold remove_all_item (get_installed_updates (updates warning_world)) warning_world)
     = [([], Dir)] \<and>
   transcript (world_of (remove_confirmed orphan_world (''B.zip'', (Installed, ''B.zip''))))
     = [(unused_prompt, ''n''), (details_prompt, ''n'')] \<and>
   strip_lower ''n'' \<noteq> ''y'' \<and>
   primary (remove_all_item (''B.zip'', (Installed, ''B.zip'')) orphan_world)
     = [([], Dir), ([''a.txt''], File ''a'')]"
proof -
  have a: "get_installed_updates (updates warning_world) \<noteq> []" by code_simp
  have b: "stdin warning_world = ''y'' # [''n'', ''n'', ''n'']" by (simp add: warning_world_def)
  have c: "strip_lower ''y'' = ''y''" "strip_lower ''n'' \<noteq> ''y''" by code_simp+
  have t0: "transcript orphan_world = []" by (simp add: orphan_world_def warning_world_def)
  have h: "\<forall>l. (unused_prompt, l) \<in> set (drop (length (transcript orphan_world))
              (transcript (world_of (remove_confirmed orphan_world (''B.zip'', (Installed, ''B.zip''))))))
              \<longrightarrow> strip_lower l \<noteq> ''y''"
    using c(2) by (auto simp: orphan_confirmed t0 unused_prompt_def details_prompt_def)
  note inst = remove_all_updates_single_confirmation[where w = warning_world and a = "''y''" and rest = "[''n'', ''n'', ''n'']"
      and v = orphan_world and item = "(''B.zip'', (Installed, ''B.zip''))"]
  from inst a b c h have
    "primary (world_of (remove_all_updates warning_world)) =
       primary (fold remove_all_item (get_installed_updates (updates warning_world)) warning_world)"
    "primary (world_of (remove_confirmed orphan_world (''B.zip'', (Installed, ''B.zip'')))) =
       primary (remove_all_item (''B.zip'', (Installed, ''B.zip'')) orphan_world)"
    by blast+
  with a b c show ?thesis by (simp add: warning_all orphan_confirmed)
qed

text \<open>
  The claim as worded does not hold. With \<^verbatim>\<open>A.zip\<close> and \<^verbatim>\<open>B.zip\<close> installed, \<^verbatim>\<open>B.zip\<close>
  depending on \<^verbatim>\<open>A.zip\<close>, and the answers \<^verbatim>\<open>y\<close>, \<^verbatim>\<open>n\<close>, \<^verbatim>\<open>n\<close>, \<^verbatim>\<open>n\<close>: the bulk removal asks
  its confirmation only and removes both updates, while the per-item logic under one
  confirmation warns about the installed dependent of \<^verbatim>\<open>A.zip\<close>, is answered \<^verbatim>\<open>n\<close> and
  keeps \<^verbatim>\<open>A.zip\<close> installed.
\<close>

theorem remove_all_updates_counterexample:
  "installed_files (updates (world_of (remove_all_updates warning_world))) = [] \<and>
   map fst (installed_files (updates (world_of (remove_all_as_specified warning_world)))) = [''A.zip''] \<and>
   map fst (transcript (world_of (remove_all_updates warning_world))) = [remove_all_prompt] \<and>
   map fst (transcript (world_of (remove_all_as_specified warning_world))) =
     [remove_all_prompt, dependents_prompt, unused_prompt, details_prompt] \<and>
   remove_all_updates warning_world \<noteq> remove_all_as_specified warning_world"
  by code_simp

end
